theory Spec2Isabelle
  imports Complex_Main "HOL-Library.Monad_Syntax"
begin

unbundle bit_operations_syntax

section \<open>Python values\<close>

text \<open>
  A Python call that raises is the value \<open>None\<close> of an option type; the only exception
  the modelled code can raise is \<open>IndexError\<close> (an index out of range, or
  \<open>random.choice\<close> on an empty list).
\<close>

definition py_int :: "rat \<Rightarrow> int" where
  \<comment> \<open>\<open>int(q)\<close> of a float: truncation towards zero. Positions are Qt's \<open>qreal\<close>; the
      model computes with exact rationals.\<close>
  "py_int q = (if 0 \<le> q then \<lfloor>q\<rfloor> else \<lceil>q\<rceil>)"

definition py_get :: "'a list \<Rightarrow> int \<Rightarrow> 'a option" where
  \<comment> \<open>\<open>xs[i]\<close>: a negative index counts from the end, an index out of range raises.\<close>
  "py_get xs i =
     (let n = int (length xs); j = (if i < 0 then n + i else i)
      in if 0 \<le> j \<and> j < n then Some (xs ! nat j) else None)"

definition py_set :: "'a list \<Rightarrow> int \<Rightarrow> 'a \<Rightarrow> 'a list option" where
  \<comment> \<open>\<open>xs[i] = v\<close>, returning the updated list.\<close>
  "py_set xs i v =
     (let n = int (length xs); j = (if i < 0 then n + i else i)
      in if 0 \<le> j \<and> j < n then Some (xs[nat j := v]) else None)"

definition py_take :: "'a list \<Rightarrow> int \<Rightarrow> 'a list" where
  \<comment> \<open>The slice \<open>xs[:n]\<close>; a negative \<open>n\<close> drops that many elements from the end.\<close>
  "py_take xs n = (if 0 \<le> n then take (nat n) xs else take (length xs - nat (- n)) xs)"

definition py_range :: "int \<Rightarrow> int \<Rightarrow> int list" where
  \<comment> \<open>\<open>range(a, b)\<close>\<close>
  "py_range a b = [a..b - 1]"

fun for_each :: "('a \<Rightarrow> 's \<Rightarrow> 's option) \<Rightarrow> 'a list \<Rightarrow> 's \<Rightarrow> 's option" where
  \<comment> \<open>A \<open>for\<close> loop over a list whose body updates the state and may raise.\<close>
  "for_each body [] s = Some s"
| "for_each body (x # xs) s = (case body x s of None \<Rightarrow> None | Some s' \<Rightarrow> for_each body xs s')"

type_synonym random = "nat list"

definition choice :: "'a list \<Rightarrow> random \<Rightarrow> ('a \<times> random) option" where
  \<comment> \<open>\<open>random.choice(xs)\<close>. The shared random source is the list of the numbers it will
      produce; each call takes the first, and a source that has run out produces 0. Every
      element of a non-empty \<open>xs\<close> is the outcome for some source.\<close>
  "choice xs rs =
     (if xs = [] then None
      else case rs of [] \<Rightarrow> Some (xs ! 0, []) | r # rs' \<Rightarrow> Some (xs ! (r mod length xs), rs'))"

section \<open>Global tables\<close>

type_synonym tile_info = "int \<rightharpoonup> (int list \<times> int \<times> int)"

record ObjectDef =
  rows :: "int list option list option list option"

record globals =
  TilesetFilesLoaded :: "string option list"
  TilesetInfo :: "(string \<rightharpoonup> tile_info) option"
  ObjectDefinitions :: "ObjectDef option list option list option"

fun before_arc :: "string \<Rightarrow> string" where
  \<comment> \<open>\<open>s.split(".arc")[0]\<close>\<close>
  "before_arc [] = []"
| "before_arc (c # cs) = (if take 4 (c # cs) = ''.arc'' then [] else c # before_arc cs)"

definition tileset_name :: "string \<Rightarrow> string" where
  \<comment> \<open>\<open>path.split("/")[-1].split(".arc")[0]\<close>\<close>
  "tileset_name path = before_arc (rev (takeWhile (\<lambda>c. c \<noteq> CHR ''/'') (rev path)))"

definition randomisation_info ::
  "globals \<Rightarrow> int \<Rightarrow> int \<Rightarrow> (string \<times> (string \<rightharpoonup> tile_info) \<times> int list) option option" where
  \<comment> \<open>The chain of \<open>is None\<close> tests that opens \<open>isBottomRowSpecial\<close>, \<open>randomise\<close> and
      \<open>updateObjCacheWH\<close>, evaluated left to right. \<open>None\<close>: an index raised.
      \<open>Some None\<close>: the chain is true (no randomisation info). \<open>Some (Some (path, info, e))\<close>:
      the chain is false, with the file name, the table and \<open>rows[0][0]\<close> it has found.\<close>
  "randomisation_info G ts ty =
     (case py_get (TilesetFilesLoaded G) ts of None \<Rightarrow> None
      | Some None \<Rightarrow> Some None
      | Some (Some path) \<Rightarrow>
     (case TilesetInfo G of None \<Rightarrow> Some None
      | Some info \<Rightarrow>
     (case ObjectDefinitions G of None \<Rightarrow> Some None
      | Some defs \<Rightarrow>
     (case py_get defs ts of None \<Rightarrow> None
      | Some None \<Rightarrow> Some None
      | Some (Some tdefs) \<Rightarrow>
     (case py_get tdefs ty of None \<Rightarrow> None
      | Some None \<Rightarrow> Some None
      | Some (Some d) \<Rightarrow>
     (case rows d of None \<Rightarrow> Some None
      | Some rws \<Rightarrow>
     (case py_get rws 0 of None \<Rightarrow> None
      | Some None \<Rightarrow> Some None
      | Some (Some row) \<Rightarrow>
     (case py_get row 0 of None \<Rightarrow> None
      | Some None \<Rightarrow> Some None
      | Some (Some e) \<Rightarrow>
          if length e = 1 then Some None else Some (Some (path, info, e))))))))))"

section \<open>The tile grid of an object\<close>

text \<open>
  The classes are records of the attributes the modelled methods use; \<open>ObjectItem\<close> extends
  \<open>LevelEditorItem\<close> as the class does. \<open>objdata\<close> is the grid of tiles, a list of rows.
\<close>

record LevelEditorItem =
  objx :: int
  objy :: int
  dragoffsetx :: rat
  dragoffsety :: rat
  autoPosChange :: bool

record ObjectItem = LevelEditorItem +
  tileset :: int
  type :: int
  width :: int
  height :: int
  objdata :: "int list list"

definition get_tile :: "int list list \<Rightarrow> int \<Rightarrow> int \<Rightarrow> int option" where
  \<comment> \<open>\<open>self.objdata[y][x]\<close>\<close>
  "get_tile data y x = do { row \<leftarrow> py_get data y; py_get row x }"

definition set_tile :: "int list list \<Rightarrow> int \<Rightarrow> int \<Rightarrow> int \<Rightarrow> int list list option" where
  \<comment> \<open>\<open>self.objdata[y][x] = v\<close>\<close>
  "set_tile data y x v = do { row \<leftarrow> py_get data y; row' \<leftarrow> py_set row x v; py_set data y row' }"

definition filter_neighbours ::
  "int list \<Rightarrow> int \<Rightarrow> int list list \<Rightarrow> int \<Rightarrow> int \<Rightarrow> int list option" where
  \<comment> \<open>\<open>tiles_\<close> after the two \<open>remove\<close> calls: the copy of \<open>tiles\<close> without the first
      occurrence of the left neighbour's tile (direction bit 0, \<open>x > 0\<close>) and of the tile
      above (direction bit 1, \<open>y > 0\<close>); a \<open>ValueError\<close> of \<open>remove\<close> is passed over.\<close>
  "filter_neighbours tiles direction data y x =
     do {
       tiles1 \<leftarrow>
         (if direction AND 1 \<noteq> 0 \<and> x > 0
          then do { l \<leftarrow> get_tile data y (x - 1); Some (remove1 (l AND 0xFF) tiles) }
          else Some tiles);
       (if direction AND 2 \<noteq> 0 \<and> y > 0
        then do { u \<leftarrow> get_tile data (y - 1) x; Some (remove1 (u AND 0xFF) tiles1) }
        else Some tiles1)
     }"

definition store_choice :: "int list list \<Rightarrow> int \<Rightarrow> int \<Rightarrow> int \<Rightarrow> int \<Rightarrow> int list list option" where
  \<comment> \<open>The writes that end the loop body: the chosen value into the cell and, for the bottom
      half of a pair (special bit 1) below the first row, \<open>choice - 0x10\<close> into the cell above.\<close>
  "store_choice data y x special chosen =
     do {
       data' \<leftarrow> set_tile data y x chosen;
       if special AND 2 \<noteq> 0
       then if y > 0 then set_tile data' (y - 1) x (chosen - 0x10) else Some data'
       else Some data'
     }"

definition randomise_cell ::
  "tile_info \<Rightarrow> int \<Rightarrow> int \<Rightarrow> int \<Rightarrow> int list list \<times> random \<Rightarrow> (int list list \<times> random) option" where
  \<comment> \<open>The body of the two loops of \<open>randomise\<close>, for the cell in row \<open>y\<close>, column \<open>x\<close>.\<close>
  "randomise_cell tinfo ts y x st =
     (case st of (data, rs) \<Rightarrow>
      do {
        v \<leftarrow> get_tile data y x;
        (case tinfo (v AND 0xFF) of
           None \<Rightarrow> Some (data, rs)
         | Some (tiles, direction, special) \<Rightarrow>
             if special AND 1 \<noteq> 0 then Some (data, rs)
             else do {
               tiles2 \<leftarrow> filter_neighbours tiles direction data y x;
               (c, rs') \<leftarrow> choice (if length tiles2 = 0 then tiles else tiles2) rs;
               data' \<leftarrow> store_choice data y x special (push_bit 8 ts OR c);
               Some (data', rs')
             })
      })"

definition randomise ::
  "globals \<Rightarrow> ObjectItem \<Rightarrow> int \<Rightarrow> int \<Rightarrow> int option \<Rightarrow> int option \<Rightarrow> random
     \<Rightarrow> (ObjectItem \<times> random) option" where
  "randomise G obj startx starty w h rs =
     (case randomisation_info G (tileset obj) (type obj) of None \<Rightarrow> None
      | Some None \<Rightarrow> Some (obj, rs)
      | Some (Some (path, info, e)) \<Rightarrow>
     (case info (tileset_name path) of None \<Rightarrow> Some (obj, rs)
      | Some tinfo \<Rightarrow>
          let w' = (case w of None \<Rightarrow> width obj | Some n \<Rightarrow> n);
              h' = (case h of None \<Rightarrow> height obj | Some n \<Rightarrow> n)
          in map_option (\<lambda>(data, rs'). (obj\<lparr>objdata := data\<rparr>, rs'))
               (for_each
                  (\<lambda>y. for_each (\<lambda>x. randomise_cell tinfo (tileset obj) y x)
                         (py_range startx (startx + w')))
                  (py_range starty (starty + h'))
                  (objdata obj, rs))))"

fun bottom_scan :: "tile_info \<Rightarrow> int list list \<Rightarrow> int list \<Rightarrow> bool option" where
  \<comment> \<open>The loop of \<open>isBottomRowSpecial\<close> over the columns \<open>xs\<close>.\<close>
  "bottom_scan tinfo data [] = Some False"
| "bottom_scan tinfo data (x # xs) =
     do {
       row \<leftarrow> py_get data (- 1);
       v \<leftarrow> py_get row x;
       (case tinfo (v AND 0xFF) of
          None \<Rightarrow> bottom_scan tinfo data xs
        | Some (tiles, direction, special) \<Rightarrow>
            if special AND 1 \<noteq> 0 then Some True else bottom_scan tinfo data xs)
     }"

definition isBottomRowSpecial :: "globals \<Rightarrow> ObjectItem \<Rightarrow> bool option" where
  "isBottomRowSpecial G obj =
     (case randomisation_info G (tileset obj) (type obj) of None \<Rightarrow> None
      | Some None \<Rightarrow> Some False
      | Some (Some (path, info, e)) \<Rightarrow>
     (case info (tileset_name path) of None \<Rightarrow> Some False
      | Some tinfo \<Rightarrow> bottom_scan tinfo (objdata obj) (py_range 0 (width obj))))"

type_synonym render = "int \<Rightarrow> int \<Rightarrow> int \<Rightarrow> int \<Rightarrow> int list list"

text \<open>
  \<open>RenderObject(tileset, type, width, height)\<close> is imported from the module \<open>tiles\<close>;
  it is a parameter \<open>R\<close> of the model. It returns a fresh grid, so no two rows of
  \<open>objdata\<close> are the same list object and a grid is a value.
\<close>

definition render_rect :: "render \<Rightarrow> bool" where
  \<comment> \<open>What the model asks of \<open>RenderObject\<close>: the grid it returns is \<open>h\<close> rows of \<open>w\<close> tiles.\<close>
  "render_rect R =
     (\<forall>ts ty w h. length (R ts ty w h) = nat h \<and> (\<forall>row \<in> set (R ts ty w h). length row = nat w))"

definition updateObjCache :: "render \<Rightarrow> globals \<Rightarrow> ObjectItem \<Rightarrow> random \<Rightarrow> (ObjectItem \<times> random) option" where
  "updateObjCache R G obj rs =
     randomise G (obj\<lparr>objdata := R (tileset obj) (type obj) (width obj) (height obj)\<rparr>) 0 0 None None rs"

definition rerender :: "render \<Rightarrow> globals \<Rightarrow> ObjectItem \<Rightarrow> int \<Rightarrow> int \<Rightarrow> random \<Rightarrow> (ObjectItem \<times> random) option" where
  \<comment> \<open>The four lines shared by the two early exits of \<open>updateObjCacheWH\<close>: swap the new
      size in, rebuild, swap the old size back.\<close>
  "rerender R G obj w h rs =
     do {
       (obj', rs') \<leftarrow> updateObjCache R G (obj\<lparr>width := w, height := h\<rparr>) rs;
       Some (obj'\<lparr>width := width obj, height := height obj\<rparr>, rs')
     }"

fun append_rows :: "int list list \<Rightarrow> int list list \<Rightarrow> int list \<Rightarrow> int list list option" where
  \<comment> \<open>\<open>for y in ys: data[y] += new[y]\<close>\<close>
  "append_rows data new [] = Some data"
| "append_rows data new (y # ys) =
     do {
       row \<leftarrow> py_get data y;
       extra \<leftarrow> py_get new y;
       data' \<leftarrow> py_set data y (row @ extra);
       append_rows data' new ys
     }"

definition resize_height ::
  "render \<Rightarrow> globals \<Rightarrow> ObjectItem \<Rightarrow> int \<Rightarrow> random \<Rightarrow> (ObjectItem \<times> random) option" where
  \<comment> \<open>The first \<open>if\<close>/\<open>elif\<close> of the incremental path of \<open>updateObjCacheWH\<close>: fewer rows are
      cut off; more rows are rendered, appended and randomised, after dropping a bottom
      row that holds the top half of a pair (and counting \<open>self.height\<close> down with it).\<close>
  "resize_height R G obj h rs =
     (if h < height obj then Some (obj\<lparr>objdata := py_take (objdata obj) h\<rparr>, rs)
      else if h > height obj then do {
        special \<leftarrow> isBottomRowSpecial G obj;
        let obj' = (if special
                    then obj\<lparr>objdata := py_take (objdata obj) (- 1), height := height obj - 1\<rparr>
                    else obj);
        let obj'' = obj'\<lparr>objdata := objdata obj' @ R (tileset obj') (type obj') (width obj') (h - height obj')\<rparr>;
        randomise G obj'' 0 (height obj'') (Some (width obj'')) (Some (h - height obj'')) rs }
      else Some (obj, rs))"

definition resize_width ::
  "render \<Rightarrow> globals \<Rightarrow> ObjectItem \<Rightarrow> int \<Rightarrow> int \<Rightarrow> random \<Rightarrow> (ObjectItem \<times> random) option" where
  \<comment> \<open>The second \<open>if\<close>/\<open>elif\<close>: fewer columns are cut off every row; more columns are
      rendered for the new height, appended row by row and randomised.\<close>
  "resize_width R G obj w h rs =
     (if w < width obj
      then Some (obj\<lparr>objdata := map (\<lambda>row. py_take row w) (objdata obj)\<rparr>, rs)
      else if w > width obj then do {
        data \<leftarrow> append_rows (objdata obj) (R (tileset obj) (type obj) (w - width obj) h)
                  (py_range 0 (int (length (objdata obj))));
        randomise G (obj\<lparr>objdata := data\<rparr>) (width obj) 0 (Some (w - width obj)) (Some h) rs }
      else Some (obj, rs))"

definition updateObjCacheWH ::
  "render \<Rightarrow> globals \<Rightarrow> ObjectItem \<Rightarrow> int \<Rightarrow> int \<Rightarrow> random \<Rightarrow> (ObjectItem \<times> random) option" where
  "updateObjCacheWH R G obj w h rs =
     (case randomisation_info G (tileset obj) (type obj) of None \<Rightarrow> None
      | Some None \<Rightarrow> rerender R G obj w h rs
      | Some (Some (path, info, e)) \<Rightarrow>
          do {
            t \<leftarrow> py_get e 1;
            if (case info (tileset_name path) of None \<Rightarrow> True | Some tinfo \<Rightarrow> tinfo (t AND 0xFF) = None)
            then rerender R G obj w h rs
            else if w = width obj \<and> h = height obj then Some (obj, rs)
            else do {
              (obj1, rs1) \<leftarrow> resize_height R G obj h rs;
              resize_width R G obj1 w h rs1
            }
          })"

definition UpdateObj ::
  "render \<Rightarrow> globals \<Rightarrow> ObjectItem \<Rightarrow> int \<times> int \<Rightarrow> random \<Rightarrow> (ObjectItem \<times> random) option" where
  \<comment> \<open>The rectangles handed to the scene for redrawing are not part of the model, and with
      them the arguments \<open>oldX\<close>, \<open>oldY\<close>.\<close>
  "UpdateObj R G obj newSize rs =
     do {
       (obj', rs') \<leftarrow> updateObjCacheWH R G obj (fst newSize) (snd newSize) rs;
       Some (obj'\<lparr>width := fst newSize, height := snd newSize\<rparr>, rs')
     }"

definition new_ObjectItem ::
  "render \<Rightarrow> globals \<Rightarrow> int \<Rightarrow> int \<Rightarrow> int \<Rightarrow> int \<Rightarrow> int \<Rightarrow> int \<Rightarrow> random \<Rightarrow> (ObjectItem \<times> random) option" where
  \<comment> \<open>\<open>ObjectItem.__init__\<close>: the fields, then \<open>updateObjCache\<close> (layer and z order are not
      part of the model).\<close>
  "new_ObjectItem R G ts ty x y w h rs =
     updateObjCache R G
       \<lparr>objx = x, objy = y, dragoffsetx = 0, dragoffsety = 0, autoPosChange = False,
        tileset = ts, type = ty, width = w, height = h, objdata = []\<rparr> rs"

section \<open>Resizing with the mouse\<close>

type_synonym participant = "ObjectItem \<times> int \<times> int"

text \<open>
  The fields of the object that receives the mouse events, as far as resizing uses them.
  \<open>objsDragging\<close> is the dictionary from each selected object to its entry \<open>[w, h]\<close>, in
  insertion order; an object is kept with its entry, so that changing the object changes
  the key in place as the Python does.
\<close>

record gesture =
  dragging :: bool
  dragstartx :: int
  dragstarty :: int
  TLGrabbed :: bool
  TRGrabbed :: bool
  BLGrabbed :: bool
  BRGrabbed :: bool
  MTGrabbed :: bool
  MLGrabbed :: bool
  MBGrabbed :: bool
  MRGrabbed :: bool
  objsDragging :: "participant list"

fun for_objs ::
  "(participant \<Rightarrow> random \<Rightarrow> (participant \<times> random) option) \<Rightarrow> participant list \<Rightarrow> random
     \<Rightarrow> (participant list \<times> random) option" where
  \<comment> \<open>\<open>for obj in self.objsDragging: body\<close>\<close>
  "for_objs body [] rs = Some ([], rs)"
| "for_objs body (p # ps) rs =
     do {
       (p', rs1) \<leftarrow> body p rs;
       (ps', rs2) \<leftarrow> for_objs body ps rs1;
       Some (p' # ps', rs2)
     }"

definition resize_TL ::
  "render \<Rightarrow> globals \<Rightarrow> int \<Rightarrow> int \<Rightarrow> int \<Rightarrow> int \<Rightarrow> participant \<Rightarrow> random \<Rightarrow> (participant \<times> random) option" where
  "resize_TL R G clickedx clickedy dsx dsy p rs =
     (case p of (obj, w0, h0) \<Rightarrow>
      let oldWidth = w0; oldHeight = h0;
          w1 = w0 - (clickedx - dsx);
          h1 = h0 - (clickedy - dsy)
      in if w1 < 1 \<or> h1 < 1
         then Some ((obj, if w1 < 1 then oldWidth else w1, if h1 < 1 then oldHeight else h1), rs)
         else
           let newX = objx obj + clickedx - dsx;
               newY = objy obj + clickedy - dsy;
               newWidth = w1; newHeight = h1;
               okx = (newX \<ge> 0 \<and> newX + newWidth = objx obj + width obj);
               oky = (newY \<ge> 0 \<and> newY + newHeight = objy obj + height obj);
               newSize = (if okx then newWidth else width obj, if oky then newHeight else height obj);
               obj1 = (if okx then obj\<lparr>objx := newX\<rparr> else obj);
               obj2 = (if oky then obj1\<lparr>objy := newY\<rparr> else obj1)
           in do {
                (obj', rs') \<leftarrow> UpdateObj R G obj2 newSize rs;
                Some ((obj', if okx then w1 else oldWidth, if oky then h1 else oldHeight), rs')
              })"

definition resize_TR ::
  "render \<Rightarrow> globals \<Rightarrow> int \<Rightarrow> int \<Rightarrow> int \<Rightarrow> int \<Rightarrow> participant \<Rightarrow> random \<Rightarrow> (participant \<times> random) option" where
  "resize_TR R G clickedx clickedy dsx dsy p rs =
     (case p of (obj, w0, h0) \<Rightarrow>
      let oldHeight = h0;
          w1 = w0 + (clickedx - dsx);
          h1 = h0 - (clickedy - dsy)
      in if h1 < 1 then Some ((obj, w1, oldHeight), rs)
         else
           let newY = objy obj + clickedy - dsy;
               newWidth = (if w1 < 1 then 1 else w1);
               newHeight = h1;
               oky = (newY \<ge> 0 \<and> newY + newHeight = objy obj + height obj);
               newSize = (newWidth, if oky then newHeight else height obj);
               obj1 = (if oky then obj\<lparr>objy := newY\<rparr> else obj)
           in do {
                (obj', rs') \<leftarrow> UpdateObj R G obj1 newSize rs;
                Some ((obj', w1, if oky then h1 else oldHeight), rs')
              })"

definition resize_BL ::
  "render \<Rightarrow> globals \<Rightarrow> int \<Rightarrow> int \<Rightarrow> int \<Rightarrow> int \<Rightarrow> participant \<Rightarrow> random \<Rightarrow> (participant \<times> random) option" where
  "resize_BL R G clickedx clickedy dsx dsy p rs =
     (case p of (obj, w0, h0) \<Rightarrow>
      let oldWidth = w0;
          w1 = w0 - (clickedx - dsx);
          h1 = h0 + (clickedy - dsy)
      in if w1 < 1 then Some ((obj, oldWidth, h1), rs)
         else
           let newX = objx obj + clickedx - dsx;
               newWidth = w1;
               newHeight = (if h1 < 1 then 1 else h1);
               okx = (newX \<ge> 0 \<and> newX + newWidth = objx obj + width obj);
               newSize = (if okx then newWidth else width obj, newHeight);
               obj1 = (if okx then obj\<lparr>objx := newX\<rparr> else obj)
           in do {
                (obj', rs') \<leftarrow> UpdateObj R G obj1 newSize rs;
                Some ((obj', if okx then w1 else oldWidth, h1), rs')
              })"

definition resize_BR ::
  "render \<Rightarrow> globals \<Rightarrow> int \<Rightarrow> int \<Rightarrow> int \<Rightarrow> int \<Rightarrow> participant \<Rightarrow> random \<Rightarrow> (participant \<times> random) option" where
  "resize_BR R G clickedx clickedy dsx dsy p rs =
     (case p of (obj, w0, h0) \<Rightarrow>
      let w1 = w0 + (clickedx - dsx);
          h1 = h0 + (clickedy - dsy);
          newWidth = (if w1 < 1 then 1 else w1);
          newHeight = (if h1 < 1 then 1 else h1)
      in do {
           (obj', rs') \<leftarrow> UpdateObj R G obj (newWidth, newHeight) rs;
           Some ((obj', w1, h1), rs')
         })"

definition resize_MT ::
  "render \<Rightarrow> globals \<Rightarrow> int \<Rightarrow> int \<Rightarrow> int \<Rightarrow> int \<Rightarrow> participant \<Rightarrow> random \<Rightarrow> (participant \<times> random) option" where
  "resize_MT R G clickedx clickedy dsx dsy p rs =
     (case p of (obj, w0, h0) \<Rightarrow>
      let oldHeight = h0;
          h1 = h0 - (clickedy - dsy)
      in if h1 < 1 then Some ((obj, w0, oldHeight), rs)
         else
           let newY = objy obj + clickedy - dsy;
               newHeight = h1;
               oky = (newY \<ge> 0 \<and> newY + newHeight = objy obj + height obj);
               newSize = (width obj, if oky then newHeight else height obj);
               obj1 = (if oky then obj\<lparr>objy := newY\<rparr> else obj)
           in do {
                (obj', rs') \<leftarrow> UpdateObj R G obj1 newSize rs;
                Some ((obj', w0, if oky then h1 else oldHeight), rs')
              })"

definition resize_ML ::
  "render \<Rightarrow> globals \<Rightarrow> int \<Rightarrow> int \<Rightarrow> int \<Rightarrow> int \<Rightarrow> participant \<Rightarrow> random \<Rightarrow> (participant \<times> random) option" where
  "resize_ML R G clickedx clickedy dsx dsy p rs =
     (case p of (obj, w0, h0) \<Rightarrow>
      let oldWidth = w0;
          w1 = w0 - (clickedx - dsx)
      in if w1 < 1 then Some ((obj, oldWidth, h0), rs)
         else
           let newX = objx obj + clickedx - dsx;
               newWidth = w1;
               okx = (newX \<ge> 0 \<and> newX + newWidth = objx obj + width obj);
               newSize = (if okx then newWidth else width obj, height obj);
               obj1 = (if okx then obj\<lparr>objx := newX\<rparr> else obj)
           in do {
                (obj', rs') \<leftarrow> UpdateObj R G obj1 newSize rs;
                Some ((obj', if okx then w1 else oldWidth, h0), rs')
              })"

definition resize_MB ::
  "render \<Rightarrow> globals \<Rightarrow> int \<Rightarrow> int \<Rightarrow> int \<Rightarrow> int \<Rightarrow> participant \<Rightarrow> random \<Rightarrow> (participant \<times> random) option" where
  "resize_MB R G clickedx clickedy dsx dsy p rs =
     (case p of (obj, w0, h0) \<Rightarrow>
      let h1 = h0 + (clickedy - dsy);
          newHeight = (if h1 < 1 then 1 else h1)
      in do {
           (obj', rs') \<leftarrow> UpdateObj R G obj (width obj, newHeight) rs;
           Some ((obj', w0, h1), rs')
         })"

definition resize_MR ::
  "render \<Rightarrow> globals \<Rightarrow> int \<Rightarrow> int \<Rightarrow> int \<Rightarrow> int \<Rightarrow> participant \<Rightarrow> random \<Rightarrow> (participant \<times> random) option" where
  "resize_MR R G clickedx clickedy dsx dsy p rs =
     (case p of (obj, w0, h0) \<Rightarrow>
      let w1 = w0 + (clickedx - dsx);
          newWidth = (if w1 < 1 then 1 else w1)
      in do {
           (obj', rs') \<leftarrow> UpdateObj R G obj (newWidth, height obj) rs;
           Some ((obj', w1, h0), rs')
         })"

definition resize_all ::
  "(participant \<Rightarrow> random \<Rightarrow> (participant \<times> random) option) \<Rightarrow> gesture \<Rightarrow> random \<Rightarrow> (gesture \<times> random) option" where
  \<comment> \<open>The loop over \<open>self.objsDragging\<close>, storing the participants it has changed.\<close>
  "resize_all body g rs =
     do {
       (ps, rs') \<leftarrow> for_objs body (objsDragging g) rs;
       Some (g\<lparr>objsDragging := ps\<rparr>, rs')
     }"

definition mouseMoveEvent ::
  "render \<Rightarrow> globals \<Rightarrow> bool \<Rightarrow> rat \<Rightarrow> rat \<Rightarrow> gesture \<times> random \<Rightarrow> (gesture \<times> random) option" where
  \<comment> \<open>\<open>buttons\<close>: \<open>event.buttons() != NoButton\<close>; \<open>ex\<close>, \<open>ey\<close>: \<open>event.pos()\<close>. Without a
      button or a drag the event goes to Qt's own handler, which is not part of the model.\<close>
  "mouseMoveEvent R G buttons ex ey st =
     (case st of (g, rs) \<Rightarrow>
      if buttons \<and> dragging g then
        let dsx = dragstartx g;
            dsy = dragstarty g;
            clickedx = py_int ((ex - 12) / 24);
            clickedy = py_int ((ey - 12) / 24)
        in
        if TLGrabbed g then
          if clickedx \<noteq> dsx \<or> clickedy \<noteq> dsy
          then resize_all (resize_TL R G clickedx clickedy dsx dsy) g rs
          else Some (g, rs)
        else if TRGrabbed g then
          let clickedx = (if clickedx < 0 then 0 else clickedx) in
          if clickedx \<noteq> dsx \<or> clickedy \<noteq> dsy
          then resize_all (resize_TR R G clickedx clickedy dsx dsy) (g\<lparr>dragstartx := clickedx\<rparr>) rs
          else Some (g, rs)
        else if BLGrabbed g then
          let clickedy = (if clickedy < 0 then 0 else clickedy) in
          if clickedx \<noteq> dsx \<or> clickedy \<noteq> dsy
          then resize_all (resize_BL R G clickedx clickedy dsx dsy) (g\<lparr>dragstarty := clickedy\<rparr>) rs
          else Some (g, rs)
        else if BRGrabbed g then
          let clickedx = (if clickedx < 0 then 0 else clickedx);
              clickedy = (if clickedy < 0 then 0 else clickedy) in
          if clickedx \<noteq> dsx \<or> clickedy \<noteq> dsy
          then resize_all (resize_BR R G clickedx clickedy dsx dsy)
                 (g\<lparr>dragstartx := clickedx, dragstarty := clickedy\<rparr>) rs
          else Some (g, rs)
        else if MTGrabbed g then
          if clickedy \<noteq> dsy
          then resize_all (resize_MT R G clickedx clickedy dsx dsy) g rs
          else Some (g, rs)
        else if MLGrabbed g then
          if clickedx \<noteq> dsx
          then resize_all (resize_ML R G clickedx clickedy dsx dsy) g rs
          else Some (g, rs)
        else if MBGrabbed g then
          let clickedy = (if clickedy < 0 then 0 else clickedy) in
          if clickedy \<noteq> dsy
          then resize_all (resize_MB R G clickedx clickedy dsx dsy) (g\<lparr>dragstarty := clickedy\<rparr>) rs
          else Some (g, rs)
        else if MRGrabbed g then
          let clickedx = (if clickedx < 0 then 0 else clickedx) in
          if clickedx \<noteq> dsx
          then resize_all (resize_MR R G clickedx clickedy dsx dsy) (g\<lparr>dragstartx := clickedx\<rparr>) rs
          else Some (g, rs)
        else Some (g, rs)
      else Some (g, rs))"

section \<open>Moving items\<close>

text \<open>
  The undo classes come from the module \<open>undo\<close>; an action is kept as the constructor call
  that made it. An item is named by its identity (a number). The set handed to
  \<open>SimultaneousUndoAction\<close> is kept as the list of its elements in the order they were added.
\<close>

datatype undo_action =
    MoveItemUndoAction nat int int int int
  | SimultaneousUndoAction "undo_action list"

type_synonym selected = "nat \<times> bool \<times> int \<times> int"
  \<comment> \<open>an item of \<open>CurrentSelection\<close>: identity, \<open>isinstance(item, ObjectItem)\<close>, \<open>objx\<close>, \<open>objy\<close>\<close>

record scene =
  OverrideSnapping :: bool
  AltModifier :: bool
  CurrentSelection :: "selected list"

definition clamp :: "rat \<Rightarrow> rat \<Rightarrow> rat" where
  \<comment> \<open>\<open>if x < 0: newpos.setX(0)\<close>, \<open>if x > hi: newpos.setX(hi)\<close>\<close>
  "clamp hi x = (if x > hi then hi else if x < 0 then 0 else x)"

definition undo_for_move :: "scene \<Rightarrow> nat \<Rightarrow> int \<Rightarrow> int \<Rightarrow> int \<Rightarrow> int \<Rightarrow> undo_action option" where
  \<comment> \<open>What \<open>LevelEditorItem.itemChange\<close> hands to \<open>undoStack.addOrExtendAction\<close> for an item that
      is not a \<open>PathEditorLineItem\<close>.\<close>
  "undo_for_move S me oldx oldy x y =
     (if length (CurrentSelection S) = 1 then Some (MoveItemUndoAction me oldx oldy x y)
      else if length (CurrentSelection S) > 1 then
        Some (SimultaneousUndoAction
               (MoveItemUndoAction me oldx oldy x y #
                map (\<lambda>(i, is_obj, ix, iy). MoveItemUndoAction i ix iy ix iy)
                    (filter (\<lambda>(i, is_obj, ix, iy). i \<noteq> me) (CurrentSelection S))))
      else None)"

definition snap_LevelEditorItem :: "scene \<Rightarrow> bool \<Rightarrow> bool \<Rightarrow> 'a LevelEditorItem_scheme \<Rightarrow> rat \<times> rat \<Rightarrow> rat \<times> rat" where
  \<comment> \<open>The position \<open>LevelEditorItem.itemChange\<close> returns for \<open>ItemPositionChange\<close>.
      \<open>in_scene\<close>: \<open>self.scene() is not None\<close>; \<open>is_selected\<close>: \<open>self.isSelected()\<close>.\<close>
  "snap_LevelEditorItem S in_scene is_selected it value =
     (case value of (x0, y0) \<Rightarrow>
      let (x1, y1) =
        (if \<not> OverrideSnapping S \<and> \<not> autoPosChange it then
           let objectsSelected =
                 (if \<not> in_scene then False
                  else list_ex (\<lambda>(i, is_obj, ix, iy). is_obj) (CurrentSelection S))
           in
           if AltModifier S then
             (of_int (py_int (of_int (py_int ((x0 + 3 / 4) / (3 / 2))) * (3 / 2))),
              of_int (py_int (of_int (py_int ((y0 + 3 / 4) / (3 / 2))) * (3 / 2))))
           else if \<not> objectsSelected \<and> is_selected \<and> length (CurrentSelection S) > 1 then
             let dx0 = py_int (dragoffsetx it); dy0 = py_int (dragoffsety it);
                 dx1 = (if dx0 < - 12 then dx0 + 12 else dx0);
                 dy1 = (if dy0 < - 12 then dy0 + 12 else dy0);
                 dx = (if dx1 = 0 then - 12 else dx1);
                 dy = (if dy1 = 0 then - 12 else dy1);
                 referenceX = py_int ((x0 + 6 + 12 + of_int dx) / 12) * 12;
                 referenceY = py_int ((y0 + 6 + 12 + of_int dy) / 12) * 12
             in (of_int (referenceX - (12 + dx)), of_int (referenceY - (12 + dy)))
           else if objectsSelected \<and> is_selected then
             let dx0 = py_int (dragoffsetx it); dy0 = py_int (dragoffsety it);
                 dx = (if dx0 = 0 then - 24 else dx0);
                 dy = (if dy0 = 0 then - 24 else dy0);
                 referenceX = py_int ((x0 + 12 + 24 + of_int dx) / 24) * 24;
                 referenceY = py_int ((y0 + 12 + 24 + of_int dy) / 24) * 24
             in (of_int (referenceX - (24 + dx)), of_int (referenceY - (24 + dy)))
           else
             (of_int (py_int ((x0 + 6) / 12) * 12), of_int (py_int ((y0 + 6) / 12) * 12))
         else (x0, y0))
      in (clamp 24552 x1, clamp 12264 y1))"

definition LevelEditorItem_itemChange ::
  "scene \<Rightarrow> nat \<Rightarrow> bool \<Rightarrow> bool \<Rightarrow> bool \<Rightarrow> 'a LevelEditorItem_scheme \<Rightarrow> rat \<times> rat
     \<Rightarrow> (rat \<times> rat) \<times> 'a LevelEditorItem_scheme \<times> undo_action option" where
  \<comment> \<open>The \<open>ItemPositionChange\<close> branch: the position returned, the item, and the action
      handed to the undo stack if there is one. \<open>me\<close>: the identity of \<open>self\<close>;
      \<open>is_line\<close>: \<open>isinstance(self, PathEditorLineItem)\<close>.\<close>
  "LevelEditorItem_itemChange S me in_scene is_selected is_line it value =
     (let newpos = snap_LevelEditorItem S in_scene is_selected it value;
          x = py_int (fst newpos / (3 / 2));
          y = py_int (snd newpos / (3 / 2))
      in if x \<noteq> objx it \<or> y \<noteq> objy it
         then (newpos, it\<lparr>objx := x, objy := y\<rparr>,
               if \<not> is_line then undo_for_move S me (objx it) (objy it) x y else None)
         else (newpos, it, None))"

definition snap_ObjectItem :: "rat \<times> rat \<Rightarrow> rat \<times> rat" where
  \<comment> \<open>The position \<open>ObjectItem.itemChange\<close> returns when the object is in a scene.\<close>
  "snap_ObjectItem value =
     (case value of (x0, y0) \<Rightarrow>
        (clamp 24576 (of_int (py_int ((x0 + 12) / 24) * 24)),
         clamp 12288 (of_int (py_int ((y0 + 12) / 24) * 24))))"

definition ObjectItem_itemChange ::
  "scene \<Rightarrow> nat \<Rightarrow> bool \<Rightarrow> ObjectItem \<Rightarrow> rat \<times> rat \<Rightarrow> (rat \<times> rat) \<times> ObjectItem \<times> undo_action option" where
  "ObjectItem_itemChange S me in_scene obj value =
     (if \<not> in_scene then (value, obj, None)
      else
        let newpos = snap_ObjectItem value;
            x = py_int (fst newpos / 24);
            y = py_int (snd newpos / 24)
        in if x \<noteq> objx obj \<or> y \<noteq> objy obj
           then (newpos, obj\<lparr>objx := x, objy := y\<rparr>,
                 if length (CurrentSelection S) = 1
                 then Some (MoveItemUndoAction me (objx obj) (objy obj) x y)
                 else None)
           else (newpos, obj, None))"

section \<open>Vocabulary of the statements\<close>

definition grid_shape :: "int list list \<Rightarrow> int \<Rightarrow> int \<Rightarrow> bool" where
  "grid_shape data w h = (int (length data) = h \<and> (\<forall>row \<in> set data. int (length row) = w))"

definition grid_inv :: "ObjectItem \<Rightarrow> bool" where
  \<comment> \<open>The grid has \<open>height\<close> rows of \<open>width\<close> tiles each, and both are at least 1.\<close>
  "grid_inv obj =
     (int (length (objdata obj)) = height obj \<and>
      (\<forall>row \<in> set (objdata obj). int (length row) = width obj) \<and>
      1 \<le> width obj \<and> 1 \<le> height obj)"

datatype grid_op =
    Rebuild
  | SetType int int
  | Resize int int
  | Randomise int int "int option" "int option"

fun grid_step :: "render \<Rightarrow> globals \<Rightarrow> grid_op \<Rightarrow> ObjectItem \<times> random \<Rightarrow> (ObjectItem \<times> random) option" where
  \<comment> \<open>The operations on the grid of an object: \<open>updateObjCache()\<close>, \<open>SetType(tileset, type)\<close>
      without its repaint, \<open>UpdateObj(oldX, oldY, (w, h))\<close> and \<open>randomise(startx, starty, width, height)\<close>.\<close>
  "grid_step R G Rebuild (obj, rs) = updateObjCache R G obj rs"
| "grid_step R G (SetType ts ty) (obj, rs) = updateObjCache R G (obj\<lparr>tileset := ts, type := ty\<rparr>) rs"
| "grid_step R G (Resize w h) (obj, rs) = UpdateObj R G obj (w, h) rs"
| "grid_step R G (Randomise sx sy w h) (obj, rs) = randomise G obj sx sy w h rs"

fun resize_ok :: "grid_op \<Rightarrow> bool" where
  "resize_ok (Resize w h) = (1 \<le> w \<and> 1 \<le> h)"
| "resize_ok Rebuild = True"
| "resize_ok (SetType ts ty) = True"
| "resize_ok (Randomise sx sy w h) = True"

definition part_ok :: "participant \<Rightarrow> bool" where
  "part_ok p = (case p of (obj, w0, h0) \<Rightarrow> 1 \<le> width obj \<and> 1 \<le> height obj)"

definition sizes_ok :: "gesture \<Rightarrow> bool" where
  \<comment> \<open>Every participant's committed width and height are at least 1.\<close>
  "sizes_ok g = list_all part_ok (objsDragging g)"

datatype anchor = TopLeft | TopRight | BottomLeft | BottomRight | MidTop | MidLeft | MidBottom | MidRight

definition grabbed :: "gesture \<Rightarrow> anchor option" where
  \<comment> \<open>The anchor whose branch the \<open>if\<close>/\<open>elif\<close> chain of \<open>mouseMoveEvent\<close> takes.\<close>
  "grabbed g =
     (if TLGrabbed g then Some TopLeft else if TRGrabbed g then Some TopRight
      else if BLGrabbed g then Some BottomLeft else if BRGrabbed g then Some BottomRight
      else if MTGrabbed g then Some MidTop else if MLGrabbed g then Some MidLeft
      else if MBGrabbed g then Some MidBottom else if MRGrabbed g then Some MidRight
      else None)"

fun resize_obj ::
  "anchor \<Rightarrow> render \<Rightarrow> globals \<Rightarrow> int \<Rightarrow> int \<Rightarrow> int \<Rightarrow> int \<Rightarrow> participant \<Rightarrow> random \<Rightarrow> (participant \<times> random) option" where
  \<comment> \<open>The loop body of the branch of an anchor.\<close>
  "resize_obj TopLeft = resize_TL"
| "resize_obj TopRight = resize_TR"
| "resize_obj BottomLeft = resize_BL"
| "resize_obj BottomRight = resize_BR"
| "resize_obj MidTop = resize_MT"
| "resize_obj MidLeft = resize_ML"
| "resize_obj MidBottom = resize_MB"
| "resize_obj MidRight = resize_MR"




fun advances_x :: "anchor \<Rightarrow> bool" where
  \<comment> \<open>The branches that assign \<open>self.dragstartx\<close>.\<close>
  "advances_x a = (a = TopRight \<or> a = BottomRight \<or> a = MidRight)"

fun advances_y :: "anchor \<Rightarrow> bool" where
  \<comment> \<open>The branches that assign \<open>self.dragstarty\<close>.\<close>
  "advances_y a = (a = BottomLeft \<or> a = BottomRight \<or> a = MidBottom)"

definition pointer_cell :: "rat \<Rightarrow> int" where
  \<comment> \<open>\<open>clickedx\<close>, \<open>clickedy\<close> as computed from \<open>event.pos()\<close>\<close>
  "pointer_cell e = py_int ((e - 12) / 24)"

definition clicked :: "bool \<Rightarrow> rat \<Rightarrow> int" where
  \<comment> \<open>The pointer cell on one axis, raised to 0 when negative in the branches that do so
      (\<open>if clickedx < 0: clickedx = 0\<close>).\<close>
  "clicked raise e = (if raise \<and> pointer_cell e < 0 then 0 else pointer_cell e)"

fun step_taken :: "anchor \<Rightarrow> int \<Rightarrow> int \<Rightarrow> int \<Rightarrow> int \<Rightarrow> bool" where
  \<comment> \<open>The test that guards the loop in the branch of an anchor, on the pointer cell
      \<open>cx\<close>, \<open>cy\<close> after the branch has raised a negative coordinate to 0.\<close>
  "step_taken MidTop cx cy dsx dsy = (cy \<noteq> dsy)"
| "step_taken MidBottom cx cy dsx dsy = (cy \<noteq> dsy)"
| "step_taken MidLeft cx cy dsx dsy = (cx \<noteq> dsx)"
| "step_taken MidRight cx cy dsx dsy = (cx \<noteq> dsx)"
| "step_taken a cx cy dsx dsy = (cx \<noteq> dsx \<or> cy \<noteq> dsy)"

definition drag_report ::
  "(gesture \<times> random) option \<Rightarrow> (int \<times> int \<times> (int \<times> int \<times> int \<times> int \<times> int \<times> int) list) option" where
  \<comment> \<open>Of the state after a step: \<open>dragstartx\<close>, \<open>dragstarty\<close> and, for each participant,
      \<open>objx\<close>, \<open>objy\<close>, \<open>width\<close>, \<open>height\<close> and its entry \<open>[w, h]\<close>.\<close>
  "drag_report r =
     map_option
       (\<lambda>(g, rs). (dragstartx g, dragstarty g,
          map (\<lambda>(obj, w0, h0). (objx obj, objy obj, width obj, height obj, w0, h0)) (objsDragging g)))
       r"

definition uses_offsets :: "scene \<Rightarrow> bool \<Rightarrow> bool \<Rightarrow> 'a LevelEditorItem_scheme \<Rightarrow> bool" where
  \<comment> \<open>\<open>LevelEditorItem.itemChange\<close> takes one of its two branches that read the drag offsets.\<close>
  "uses_offsets S in_scene is_selected it =
     (\<not> OverrideSnapping S \<and> \<not> autoPosChange it \<and> \<not> AltModifier S \<and> is_selected \<and>
      ((in_scene \<and> list_ex (\<lambda>(i, is_obj, ix, iy). is_obj) (CurrentSelection S)) \<or>
       length (CurrentSelection S) > 1))"

definition offset_safe :: "rat \<Rightarrow> rat \<Rightarrow> rat \<Rightarrow> bool" where
  \<comment> \<open>On one axis, for the drag offset \<open>d\<close>, the bound \<open>hi\<close> and a position \<open>r\<close>:
      \<open>int(d)\<close> is 0, or it is at least -24 and \<open>r\<close> lies strictly between 0 and \<open>hi\<close>.\<close>
  "offset_safe d hi r = (py_int d = 0 \<or> (- 24 \<le> py_int d \<and> 0 < r \<and> r < hi))"

definition snap_plain :: "rat \<Rightarrow> rat \<Rightarrow> rat" where
  \<comment> \<open>One axis of the plain 8-unit branch, clamped to the bound \<open>B\<close>.\<close>
  "snap_plain B x = clamp B (of_int (py_int ((x + 6) / 12) * 12))"

definition snap_block :: "rat \<Rightarrow> rat \<Rightarrow> rat" where
  \<comment> \<open>One axis of the whole-block grid of \<open>ObjectItem.itemChange\<close>.\<close>
  "snap_block B x = clamp B (of_int (py_int ((x + 12) / 24) * 24))"

definition snap_fine :: "rat \<Rightarrow> rat \<Rightarrow> rat" where
  \<comment> \<open>One axis of the branch taken when Alt is held.\<close>
  "snap_fine B x = clamp B (of_int (py_int (of_int (py_int ((x + 3 / 4) / (3 / 2))) * (3 / 2))))"

definition snap_offset12 :: "rat \<Rightarrow> rat \<Rightarrow> rat \<Rightarrow> rat" where
  \<comment> \<open>One axis of the 8-unit branch with the drag offset \<open>d\<close>.\<close>
  "snap_offset12 B d x =
     (let d0 = py_int d;
          d1 = (if d0 < - 12 then d0 + 12 else d0);
          dd = (if d1 = 0 then - 12 else d1);
          reference = py_int ((x + 6 + 12 + of_int dd) / 12) * 12
      in clamp B (of_int (reference - (12 + dd))))"

definition snap_offset24 :: "rat \<Rightarrow> rat \<Rightarrow> rat \<Rightarrow> rat" where
  \<comment> \<open>One axis of the whole-block branch with the drag offset \<open>d\<close>.\<close>
  "snap_offset24 B d x =
     (let d0 = py_int d;
          dd = (if d0 = 0 then - 24 else d0);
          reference = py_int ((x + 12 + 24 + of_int dd) / 24) * 24
      in clamp B (of_int (reference - (24 + dd))))"

section \<open>Example data\<close>

definition R5 :: render where
  \<comment> \<open>A renderer of objects made of tile 5 only.\<close>
  "R5 ts ty w h = replicate (nat h) (replicate (nat w) 5)"

definition G_plain :: globals where
  \<comment> \<open>Object 0 of the first tileset is made of tile 5; no randomisation table is loaded.\<close>
  "G_plain =
     \<lparr>TilesetFilesLoaded = [Some ''Tilesets/Pa0_jyotyu.arc'', None, None, None],
      TilesetInfo = None,
      ObjectDefinitions = Some [Some [Some \<lparr>rows = Some [Some [Some [0, 5, 0]]]\<rparr>], None, None, None]\<rparr>"

definition info_left :: "string \<rightharpoonup> tile_info" where
  \<comment> \<open>Tile 5 is randomised between 5 and 6 and differs from its left neighbour.\<close>
  "info_left = [''Pa0_jyotyu'' \<mapsto> [5 \<mapsto> ([5, 6], 1, 0)]]"

definition info_free :: "string \<rightharpoonup> tile_info" where
  \<comment> \<open>Tile 5 is randomised between 5 and 6 whatever its neighbours.\<close>
  "info_free = [''Pa0_jyotyu'' \<mapsto> [5 \<mapsto> ([5, 6], 0, 0)]]"

definition G_rand :: globals where
  \<comment> \<open>Object 0 of the first tileset starts with tile 5, which the table has.\<close>
  "G_rand =
     \<lparr>TilesetFilesLoaded = [Some ''Tilesets/Pa0_jyotyu.arc'', None, None, None],
      TilesetInfo = Some info_left,
      ObjectDefinitions = Some [Some [Some \<lparr>rows = Some [Some [Some [0, 5, 0]]]\<rparr>], None, None, None]\<rparr>"

definition G_first :: globals where
  \<comment> \<open>Object 0 of the first tileset starts with tile 7, which the table does not have.\<close>
  "G_first =
     \<lparr>TilesetFilesLoaded = [Some ''Tilesets/Pa0_jyotyu.arc'', None, None, None],
      TilesetInfo = Some info_free,
      ObjectDefinitions = Some [Some [Some \<lparr>rows = Some [Some [Some [0, 7, 0]]]\<rparr>], None, None, None]\<rparr>"

definition G_two :: globals where
  \<comment> \<open>Object 0 of the first tileset is the row of tiles 7, 5; the table has tile 5 and
      does not have tile 7.\<close>
  "G_two =
     \<lparr>TilesetFilesLoaded = [Some ''Tilesets/Pa0_jyotyu.arc'', None, None, None],
      TilesetInfo = Some info_free,
      ObjectDefinitions =
        Some [Some [Some \<lparr>rows = Some [Some [Some [0, 7, 0], Some [0, 5, 0]]]\<rparr>], None, None, None]\<rparr>"

definition R75 :: render where
  \<comment> \<open>A renderer of the object of \<open>G_two\<close>: tile 7, then tile 5 up to the width, in every row.\<close>
  "R75 ts ty w h = replicate (nat h) (map (\<lambda>x. if x = 0 then 7 else 5) [0..<nat w])"

definition obj_with :: "int \<Rightarrow> int \<Rightarrow> int \<Rightarrow> int \<Rightarrow> int list list \<Rightarrow> ObjectItem" where
  \<comment> \<open>An object of tileset 0 and type 0 at \<open>(x, y)\<close>, of size \<open>w\<close>, \<open>h\<close>, with the grid \<open>data\<close>.\<close>
  "obj_with x y w h data =
     \<lparr>objx = x, objy = y, dragoffsetx = 0, dragoffsety = 0, autoPosChange = False,
      tileset = 0, type = 0, width = w, height = h, objdata = data\<rparr>"

definition obj_at :: "int \<Rightarrow> int \<Rightarrow> int \<Rightarrow> int \<Rightarrow> ObjectItem" where
  \<comment> \<open>The same object as \<open>R5\<close> renders it.\<close>
  "obj_at x y w h = obj_with x y w h (R5 0 0 w h)"

definition drag_of :: "anchor \<Rightarrow> int \<Rightarrow> int \<Rightarrow> ObjectItem list \<Rightarrow> gesture" where
  \<comment> \<open>The fields as \<open>mousePressEvent\<close> sets them when the press hits one anchor at cell
      \<open>(sx, sy)\<close> with the objects \<open>objs\<close> selected.\<close>
  "drag_of a sx sy objs =
     \<lparr>dragging = True, dragstartx = sx, dragstarty = sy,
      TLGrabbed = (a = TopLeft), TRGrabbed = (a = TopRight), BLGrabbed = (a = BottomLeft),
      BRGrabbed = (a = BottomRight), MTGrabbed = (a = MidTop), MLGrabbed = (a = MidLeft),
      MBGrabbed = (a = MidBottom), MRGrabbed = (a = MidRight),
      objsDragging = map (\<lambda>obj. (obj, width obj, height obj)) objs\<rparr>"

definition S_pair :: scene where
  \<comment> \<open>Two items that are not objects are selected, at cells (4, 0) and (20, 0).\<close>
  "S_pair = \<lparr>OverrideSnapping = False, AltModifier = False,
             CurrentSelection = [(1, False, 4, 0), (2, False, 20, 0)]\<rparr>"

definition S_mixed :: scene where
  \<comment> \<open>An object and another item are selected.\<close>
  "S_mixed = \<lparr>OverrideSnapping = False, AltModifier = False,
              CurrentSelection = [(1, True, 0, 0), (2, False, 20, 0)]\<rparr>"

definition item_at :: "int \<Rightarrow> int \<Rightarrow> LevelEditorItem" where
  \<comment> \<open>An item at cell \<open>(x, y)\<close> (in sixteenths of a block) with the drag offsets that
      \<open>ReggieWindow\<close> gives it when the selection changes:
      \<open>(((objx // 16) * 16) - objx) * 1.5\<close>.\<close>
  "item_at x y =
     \<lparr>objx = x, objy = y,
      dragoffsetx = of_int (((x div 16) * 16) - x) * (3 / 2),
      dragoffsety = of_int (((y div 16) * 16) - y) * (3 / 2),
      autoPosChange = False\<rparr>"

section \<open>The shape of the grid\<close>

lemma py_get_nonneg:
  "0 \<le> i \<Longrightarrow> py_get xs i = (if i < int (length xs) then Some (xs ! nat i) else None)"
  by (simp add: py_get_def Let_def)

lemma py_set_nonneg:
  "0 \<le> i \<Longrightarrow> py_set xs i v = (if i < int (length xs) then Some (xs[nat i := v]) else None)"
  by (simp add: py_set_def Let_def)

lemma py_get_mem: "py_get xs i = Some x \<Longrightarrow> x \<in> set xs"
  by (auto simp: py_get_def Let_def split: if_splits)

lemma py_set_length: "py_set xs i v = Some ys \<Longrightarrow> length ys = length xs"
  by (auto simp: py_set_def Let_def split: if_splits)

lemma py_set_row_lengths:
  "py_get d y = Some row \<Longrightarrow> length row' = length row \<Longrightarrow> py_set d y row' = Some d'
     \<Longrightarrow> map length d' = map length d"
  by (auto simp: py_get_def py_set_def Let_def map_update list_update_same_conv split: if_splits)

lemma set_tile_shape: "set_tile d y x v = Some d' \<Longrightarrow> map length d' = map length d"
  by (auto simp: set_tile_def split: bind_splits dest: py_set_length intro: py_set_row_lengths)

lemma store_choice_shape: "store_choice d y x sp v = Some d' \<Longrightarrow> map length d' = map length d"
  unfolding store_choice_def
  by (auto split: bind_splits if_splits dest!: set_tile_shape)

lemma randomise_cell_shape:
  assumes "randomise_cell tinfo ts y x (d, rs) = Some (d', rs')"
  shows "map length d' = map length d"
proof (cases "get_tile d y x")
  case None
  with assms show ?thesis by (simp add: randomise_cell_def)
next
  case (Some v)
  note v = this
  show ?thesis
  proof (cases "tinfo (v AND 0xFF)")
    case None
    with v assms show ?thesis by (simp add: randomise_cell_def)
  next
    case (Some e)
    obtain tiles direction special where e: "e = (tiles, direction, special)" by (cases e)
    show ?thesis
    proof (cases "special AND 1 \<noteq> 0")
      case True
      with v Some e assms show ?thesis by (simp add: randomise_cell_def)
    next
      case False
      with v Some e assms
      obtain c where "store_choice d y x special (push_bit 8 ts OR c) = Some d'"
        by (auto simp: randomise_cell_def split: bind_splits prod.splits)
      then show ?thesis by (rule store_choice_shape)
    qed
  qed
qed

lemma for_each_invariant:
  assumes "for_each body xs s = Some s'" and "P s"
    and "\<And>x t t'. x \<in> set xs \<Longrightarrow> P t \<Longrightarrow> body x t = Some t' \<Longrightarrow> P t'"
  shows "P s'"
  using assms
proof (induction xs arbitrary: s)
  case Nil
  then show ?case by simp
next
  case (Cons x xs)
  from Cons.prems(1) obtain s1 where 1: "body x s = Some s1" and 2: "for_each body xs s1 = Some s'"
    by (auto split: option.splits)
  have s1: "P s1" using Cons.prems(3) [OF _ Cons.prems(2) 1] by simp
  show ?case
  proof (rule Cons.IH [OF 2 s1])
    fix y t t'
    assume "y \<in> set xs" "P t" "body y t = Some t'"
    then show "P t'" using Cons.prems(3) [of y t t'] by simp
  qed
qed

lemma randomise_rows_shape:
  assumes "for_each (\<lambda>y. for_each (\<lambda>x. randomise_cell tinfo ts y x) (cols y)) ys (d, rs) = Some (d', rs')"
  shows "map length d' = map length d"
proof -
  have "map length (fst (d', rs')) = map length d"
  proof (rule for_each_invariant [OF assms, where P = "\<lambda>s. map length (fst s) = map length d"])
    show "map length (fst (d, rs)) = map length d" by simp
  next
    fix y t t'
    assume P: "map length (fst t) = map length d"
      and B: "for_each (\<lambda>x. randomise_cell tinfo ts y x) (cols y) t = Some t'"
    show "map length (fst t') = map length d"
    proof (rule for_each_invariant [OF B, where P = "\<lambda>s. map length (fst s) = map length d"])
      show "map length (fst t) = map length d" by (rule P)
    next
      fix x u u'
      assume "map length (fst u) = map length d" "randomise_cell tinfo ts y x u = Some u'"
      then show "map length (fst u') = map length d"
        using randomise_cell_shape [of tinfo ts y x "fst u" "snd u" "fst u'" "snd u'"] by simp
    qed
  qed
  then show ?thesis by simp
qed

lemma randomise_result:
  "randomise G obj sx sy w h rs = Some (obj', rs') \<Longrightarrow>
     obj' = obj \<or> (\<exists>d. obj' = obj\<lparr>objdata := d\<rparr> \<and> map length d = map length (objdata obj))"
  by (auto simp: randomise_def Let_def split: option.splits prod.splits
           dest!: randomise_rows_shape)

lemma randomise_frame:
  assumes "randomise G obj sx sy w h rs = Some (obj', rs')"
  shows "\<exists>d. obj' = obj\<lparr>objdata := d\<rparr> \<and> map length d = map length (objdata obj)"
proof -
  from randomise_result [OF assms] show ?thesis
  proof
    assume "obj' = obj"
    then have "obj' = obj\<lparr>objdata := objdata obj\<rparr> \<and> map length (objdata obj) = map length (objdata obj)"
      by simp
    then show ?thesis by (rule exI)
  qed
qed

lemma grid_shape_map_length:
  assumes "map length d' = map length d"
  shows "grid_shape d' w h = grid_shape d w h"
proof -
  from assms have "length d' = length d" using map_eq_imp_length_eq by blast
  moreover have "length ` set d' = length ` set d"
    using assms by (metis list.set_map)
  then have "(\<forall>row \<in> set d'. int (length row) = w) = (\<forall>row \<in> set d. int (length row) = w)"
    by (metis (no_types, lifting) image_iff)
  ultimately show ?thesis by (simp add: grid_shape_def)
qed

lemma render_shape:
  "render_rect R \<Longrightarrow> 0 \<le> w \<Longrightarrow> 0 \<le> h \<Longrightarrow> grid_shape (R ts ty w h) w h"
  by (auto simp: render_rect_def grid_shape_def)

lemma updateObjCache_shape:
  assumes "render_rect R" "0 \<le> width obj" "0 \<le> height obj"
    and "updateObjCache R G obj rs = Some (obj', rs')"
  shows "\<exists>d. obj' = obj\<lparr>objdata := d\<rparr> \<and> grid_shape d (width obj) (height obj)"
proof -
  let ?r = "R (tileset obj) (type obj) (width obj) (height obj)"
  from assms(4) have r: "randomise G (obj\<lparr>objdata := ?r\<rparr>) 0 0 None None rs = Some (obj', rs')"
    by (simp add: updateObjCache_def)
  from randomise_frame [OF r] obtain d where
    1: "obj' = obj\<lparr>objdata := ?r, objdata := d\<rparr>" and 2: "map length d = map length ?r"
    by auto
  have "grid_shape d (width obj) (height obj)"
    using render_shape [OF assms(1-3), of "tileset obj" "type obj"] grid_shape_map_length [OF 2]
    by simp
  moreover from 1 have "obj' = obj\<lparr>objdata := d\<rparr>" by simp
  ultimately show ?thesis by blast
qed

lemma rerender_shape:
  assumes "render_rect R" "0 \<le> w" "0 \<le> h"
    and "rerender R G obj w h rs = Some (obj', rs')"
  shows "\<exists>d. obj' = obj\<lparr>objdata := d\<rparr> \<and> grid_shape d w h"
proof -
  from assms(4) obtain o1 where u: "updateObjCache R G (obj\<lparr>width := w, height := h\<rparr>) rs = Some (o1, rs')"
    and o: "obj' = o1\<lparr>width := width obj, height := height obj\<rparr>"
    by (auto simp: rerender_def split: bind_splits)
  from updateObjCache_shape [OF assms(1) _ _ u] assms(2,3)
  obtain d where "o1 = obj\<lparr>width := w, height := h, objdata := d\<rparr>" and "grid_shape d w h"
    by auto
  with o have "obj' = obj\<lparr>objdata := d\<rparr> \<and> grid_shape d w h" by simp
  then show ?thesis by (rule exI)
qed

lemma py_range_upt: "py_range 0 (int n) = map int [0..<n]"
proof (induction n)
  case 0
  then show ?case by (simp add: py_range_def)
next
  case (Suc n)
  have "[0..int n] = [0..int n - 1] @ [int n]" by (rule upto_rec2) simp
  with Suc show ?case by (simp add: py_range_def)
qed

lemma append_rows_length: "append_rows d new ys = Some d' \<Longrightarrow> length d' = length d"
  by (induction ys arbitrary: d) (auto split: bind_splits dest!: py_set_length)

lemma append_rows_rows:
  assumes "append_rows d new (map int ks) = Some d'" "distinct ks" "i < length d"
  shows "length (d' ! i) = length (d ! i) + (if i \<in> set ks then length (new ! i) else 0)"
  using assms
proof (induction ks arbitrary: d)
  case Nil
  then show ?case by simp
next
  case (Cons k ks)
  from Cons.prems(1) obtain d1 where
    k: "k < length d" "k < length new" and d1: "d1 = d[k := d ! k @ new ! k]"
    and rest: "append_rows d1 new (map int ks) = Some d'"
    by (auto simp: py_get_nonneg py_set_def Let_def split: bind_splits if_splits)
  have "length (d' ! i) = length (d1 ! i) + (if i \<in> set ks then length (new ! i) else 0)"
    using Cons.IH [OF rest] Cons.prems(2,3) d1 by simp
  then show ?case using Cons.prems(2,3) d1 k by (auto simp: nth_list_update)
qed

lemma py_take_nonneg: "0 \<le> n \<Longrightarrow> py_take xs n = take (nat n) xs"
  by (simp add: py_take_def)

lemma py_take_minus1: "py_take xs (- 1) = butlast xs"
  by (simp add: py_take_def butlast_conv_take)

lemma grid_shape_take:
  assumes "grid_shape d w h" "0 \<le> h'" "h' \<le> h"
  shows "grid_shape (take (nat h') d) w h'"
proof -
  from assms have "length (take (nat h') d) = nat h'" by (auto simp: grid_shape_def)
  moreover have "\<forall>row \<in> set (take (nat h') d). int (length row) = w"
    using assms(1) by (auto simp: grid_shape_def dest: in_set_takeD)
  ultimately show ?thesis using assms(2) by (simp add: grid_shape_def)
qed

lemma grid_shape_append:
  assumes "grid_shape d w h" "grid_shape e w k"
  shows "grid_shape (d @ e) w (h + k)"
  using assms by (auto simp: grid_shape_def)

lemma grid_shape_butlast:
  assumes "grid_shape d w h" "1 \<le> h"
  shows "grid_shape (butlast d) w (h - 1)"
  using assms by (auto simp: grid_shape_def dest: in_set_butlastD)

lemma grid_shape_columns:
  assumes "grid_shape d w h" "0 \<le> w'" "w' \<le> w"
  shows "grid_shape (map (\<lambda>row. py_take row w') d) w' h"
  using assms by (auto simp: grid_shape_def py_take_nonneg)

lemma resize_height_shape:
  assumes R: "render_rect R"
    and ok: "grid_shape (objdata obj) (width obj) (height obj)"
    and dims: "1 \<le> width obj" "1 \<le> height obj" "1 \<le> h"
    and res: "resize_height R G obj h rs = Some (obj1, rs1)"
  shows "grid_shape (objdata obj1) (width obj) h \<and> width obj1 = width obj"
proof -
  consider (shrink) "h < height obj" | (grow) "h > height obj" | (same) "h = height obj"
    by linarith
  then show ?thesis
  proof cases
    case shrink
    with res have "obj1 = obj\<lparr>objdata := py_take (objdata obj) h\<rparr>"
      by (simp add: resize_height_def)
    then show ?thesis
      using grid_shape_take [OF ok, of h] dims shrink by (simp add: py_take_nonneg)
  next
    case same
    with res have "obj1 = obj" by (simp add: resize_height_def)
    with ok same show ?thesis by simp
  next
    case grow
    from res grow obtain b where b: "isBottomRowSpecial G obj = Some b"
      by (auto simp: resize_height_def split: bind_splits if_splits)
    define obj' where
      "obj' = (if b then obj\<lparr>objdata := py_take (objdata obj) (- 1), height := height obj - 1\<rparr> else obj)"
    define obj'' where
      "obj'' = obj'\<lparr>objdata := objdata obj' @ R (tileset obj') (type obj') (width obj') (h - height obj')\<rparr>"
    from res grow b have r: "randomise G obj'' 0 (height obj'') (Some (width obj'')) (Some (h - height obj'')) rs = Some (obj1, rs1)"
      by (simp add: resize_height_def obj'_def obj''_def Let_def)
    have w': "width obj' = width obj" by (simp add: obj'_def)
    have h': "0 \<le> height obj'" "height obj' \<le> h" using dims grow by (auto simp: obj'_def)
    have s': "grid_shape (objdata obj') (width obj) (height obj')"
      using ok dims grid_shape_butlast [OF ok] by (auto simp: obj'_def py_take_minus1)
    have "grid_shape (R (tileset obj') (type obj') (width obj') (h - height obj')) (width obj) (h - height obj')"
      using render_shape [OF R, of "width obj'" "h - height obj'"] w' h' dims by simp
    from grid_shape_append [OF s' this] have s'': "grid_shape (objdata obj'') (width obj) h"
      by (simp add: obj''_def)
    from randomise_frame [OF r] obtain d where
      d: "obj1 = obj''\<lparr>objdata := d\<rparr>" "map length d = map length (objdata obj'')"
      by auto
    have "width obj'' = width obj" by (simp add: obj''_def w')
    then show ?thesis using s'' d(1) grid_shape_map_length [OF d(2)] by simp
  qed
qed

lemma append_rows_shape:
  assumes d: "grid_shape d w h" and new: "grid_shape new k h" and "0 \<le> w" "0 \<le> k"
    and a: "append_rows d new (py_range 0 (int (length d))) = Some d'"
  shows "grid_shape d' (w + k) h"
proof -
  have rng: "py_range 0 (int (length d)) = map int [0..<length d]"
    by (rule py_range_upt)
  from a rng have a': "append_rows d new (map int [0..<length d]) = Some d'" by simp
  have len: "length d' = length d" using append_rows_length [OF a] .
  have "int (length row) = w + k" if "row \<in> set d'" for row
  proof -
    from that obtain i where i: "i < length d'" "row = d' ! i" by (auto simp: in_set_conv_nth)
    then have il: "i < length d" using len by simp
    from append_rows_rows [OF a' _ il] have "length (d' ! i) = length (d ! i) + length (new ! i)"
      using il by simp
    moreover have "int (length (d ! i)) = w" using d il by (auto simp: grid_shape_def)
    moreover have "int (length (new ! i)) = k" using new d il by (auto simp: grid_shape_def)
    ultimately show ?thesis using i by simp
  qed
  then show ?thesis using d len by (simp add: grid_shape_def)
qed

lemma resize_width_shape:
  assumes R: "render_rect R"
    and ok: "grid_shape (objdata obj) (width obj) h"
    and dims: "1 \<le> width obj" "1 \<le> w" "1 \<le> h"
    and res: "resize_width R G obj w h rs = Some (obj', rs')"
  shows "grid_shape (objdata obj') w h"
proof -
  consider (shrink) "w < width obj" | (grow) "w > width obj" | (same) "w = width obj"
    by linarith
  then show ?thesis
  proof cases
    case shrink
    with res have "obj' = obj\<lparr>objdata := map (\<lambda>row. py_take row w) (objdata obj)\<rparr>"
      by (simp add: resize_width_def)
    then show ?thesis using grid_shape_columns [OF ok, of w] dims shrink by simp
  next
    case same
    with res have "obj' = obj" by (simp add: resize_width_def)
    with ok same show ?thesis by simp
  next
    case grow
    from res grow obtain data where
      a: "append_rows (objdata obj) (R (tileset obj) (type obj) (w - width obj) h)
            (py_range 0 (int (length (objdata obj)))) = Some data"
      and r: "randomise G (obj\<lparr>objdata := data\<rparr>) (width obj) 0 (Some (w - width obj)) (Some h) rs = Some (obj', rs')"
      by (auto simp: resize_width_def split: bind_splits if_splits)
    have "grid_shape (R (tileset obj) (type obj) (w - width obj) h) (w - width obj) h"
      using render_shape [OF R, of "w - width obj" h] grow dims by simp
    from append_rows_shape [OF ok this _ _ a] have g: "grid_shape data w h"
      using dims grow by simp
    from randomise_frame [OF r] obtain d where
      d: "obj' = obj\<lparr>objdata := data, objdata := d\<rparr>" "map length d = map length data"
      by auto
    show ?thesis using g d(1) grid_shape_map_length [OF d(2)] by simp
  qed
qed

lemma rerender_frame:
  assumes "rerender R G obj w h rs = Some (obj', rs')"
  shows "\<exists>d. obj' = obj\<lparr>objdata := d\<rparr>"
proof -
  from assms obtain o1 where
    u: "randomise G (obj\<lparr>width := w, height := h, objdata := R (tileset obj) (type obj) w h\<rparr>) 0 0 None None rs = Some (o1, rs')"
    and o: "obj' = o1\<lparr>width := width obj, height := height obj\<rparr>"
    by (auto simp: rerender_def updateObjCache_def split: bind_splits)
  from randomise_frame [OF u] obtain d where
    "o1 = obj\<lparr>width := w, height := h, objdata := R (tileset obj) (type obj) w h, objdata := d\<rparr>"
    by auto
  with o have "obj' = obj\<lparr>objdata := d\<rparr>" by simp
  then show ?thesis by (rule exI)
qed

lemma resize_height_frame:
  assumes "resize_height R G obj h rs = Some (obj1, rs1)"
  shows "\<exists>d k. obj1 = obj\<lparr>objdata := d, height := k\<rparr>"
proof -
  have keep: "\<exists>d k. obj = obj\<lparr>objdata := d, height := k\<rparr>"
  proof -
    have "obj = obj\<lparr>objdata := objdata obj, height := height obj\<rparr>" by simp
    then show ?thesis by blast
  qed
  consider (shrink) "h < height obj" | (grow) "h > height obj" | (same) "h = height obj"
    by linarith
  then show ?thesis
  proof cases
    case shrink
    with assms have "obj1 = obj\<lparr>objdata := py_take (objdata obj) h, height := height obj\<rparr>"
      by (auto simp: resize_height_def)
    then show ?thesis by blast
  next
    case same
    with assms have "obj1 = obj" by (auto simp: resize_height_def)
    with keep show ?thesis by simp
  next
    case grow
    from assms grow obtain b where b: "isBottomRowSpecial G obj = Some b"
      by (auto simp: resize_height_def split: bind_splits if_splits)
    define obj' where
      "obj' = (if b then obj\<lparr>objdata := py_take (objdata obj) (- 1), height := height obj - 1\<rparr> else obj)"
    define obj'' where
      "obj'' = obj'\<lparr>objdata := objdata obj' @ R (tileset obj') (type obj') (width obj') (h - height obj')\<rparr>"
    from assms grow b have r: "randomise G obj'' 0 (height obj'') (Some (width obj'')) (Some (h - height obj'')) rs = Some (obj1, rs1)"
      by (simp add: resize_height_def obj'_def obj''_def Let_def)
    from randomise_frame [OF r] obtain d where d: "obj1 = obj''\<lparr>objdata := d\<rparr>" by auto
    have "obj1 = obj\<lparr>objdata := d, height := height obj'\<rparr>"
      by (simp add: d obj''_def obj'_def)
    then show ?thesis by blast
  qed
qed

lemma resize_width_frame:
  assumes "resize_width R G obj w h rs = Some (obj', rs')"
  shows "\<exists>d. obj' = obj\<lparr>objdata := d\<rparr>"
proof -
  consider (shrink) "w < width obj" | (grow) "w > width obj" | (same) "w = width obj"
    by linarith
  then show ?thesis
  proof cases
    case shrink
    with assms have "obj' = obj\<lparr>objdata := map (\<lambda>row. py_take row w) (objdata obj)\<rparr>"
      by (auto simp: resize_width_def)
    then show ?thesis by (rule exI)
  next
    case same
    with assms have "obj' = obj\<lparr>objdata := objdata obj\<rparr>" by (auto simp: resize_width_def)
    then show ?thesis by (rule exI)
  next
    case grow
    from assms grow obtain data where
      r: "randomise G (obj\<lparr>objdata := data\<rparr>) (width obj) 0 (Some (w - width obj)) (Some h) rs = Some (obj', rs')"
      by (auto simp: resize_width_def split: bind_splits if_splits)
    from randomise_frame [OF r] obtain d where "obj' = obj\<lparr>objdata := data, objdata := d\<rparr>" by auto
    then have "obj' = obj\<lparr>objdata := d\<rparr>" by simp
    then show ?thesis by (rule exI)
  qed
qed

lemma updateObjCacheWH_cases:
  assumes "updateObjCacheWH R G obj w h rs = Some (obj', rs')"
  shows "rerender R G obj w h rs = Some (obj', rs')
       \<or> (w = width obj \<and> h = height obj \<and> obj' = obj \<and> rs' = rs)
       \<or> (\<exists>obj1 rs1. resize_height R G obj h rs = Some (obj1, rs1) \<and>
                      resize_width R G obj1 w h rs1 = Some (obj', rs'))"
  using assms
  by (auto simp: updateObjCacheWH_def split: option.splits prod.splits bind_splits if_splits)

lemma updateObjCacheWH_shape:
  assumes R: "render_rect R"
    and ok: "grid_shape (objdata obj) (width obj) (height obj)"
    and dims: "1 \<le> width obj" "1 \<le> height obj" "1 \<le> w" "1 \<le> h"
    and res: "updateObjCacheWH R G obj w h rs = Some (obj', rs')"
  shows "grid_shape (objdata obj') w h"
proof -
  from updateObjCacheWH_cases [OF res]
  consider (rebuild) "rerender R G obj w h rs = Some (obj', rs')"
    | (same) "w = width obj" "h = height obj" "obj' = obj"
    | (patch) obj1 rs1 where "resize_height R G obj h rs = Some (obj1, rs1)"
        "resize_width R G obj1 w h rs1 = Some (obj', rs')"
    by blast
  then show ?thesis
  proof cases
    case rebuild
    from rerender_shape [OF R _ _ rebuild] dims obtain d where
      "obj' = obj\<lparr>objdata := d\<rparr>" "grid_shape d w h" by auto
    then show ?thesis by simp
  next
    case same
    with ok show ?thesis by simp
  next
    case (patch obj1 rs1)
    from resize_height_shape [OF R ok dims(1,2,4) patch(1)]
    have 1: "grid_shape (objdata obj1) (width obj1) h" and 2: "width obj1 = width obj" by simp_all
    have "1 \<le> width obj1" using 2 dims(1) by simp
    from resize_width_shape [OF R 1 this dims(3,4) patch(2)]
    show ?thesis .
  qed
qed

lemma updateObjCacheWH_frame:
  assumes res: "updateObjCacheWH R G obj w h rs = Some (obj', rs')"
  shows "\<exists>d k. obj' = obj\<lparr>objdata := d, height := k\<rparr>"
proof -
  from updateObjCacheWH_cases [OF res]
  consider (rebuild) "rerender R G obj w h rs = Some (obj', rs')"
    | (same) "obj' = obj"
    | (patch) obj1 rs1 where "resize_height R G obj h rs = Some (obj1, rs1)"
        "resize_width R G obj1 w h rs1 = Some (obj', rs')"
    by blast
  then show ?thesis
  proof cases
    case rebuild
    from rerender_frame [OF rebuild] obtain d where "obj' = obj\<lparr>objdata := d\<rparr>" by blast
    then have "obj' = obj\<lparr>objdata := d, height := height obj\<rparr>" by simp
    then show ?thesis by blast
  next
    case same
    then have "obj' = obj\<lparr>objdata := objdata obj, height := height obj\<rparr>" by simp
    then show ?thesis by blast
  next
    case (patch obj1 rs1)
    from resize_height_frame [OF patch(1)] obtain d k where 1: "obj1 = obj\<lparr>objdata := d, height := k\<rparr>"
      by blast
    from resize_width_frame [OF patch(2)] obtain d' where "obj' = obj1\<lparr>objdata := d'\<rparr>" by blast
    with 1 have "obj' = obj\<lparr>objdata := d', height := k\<rparr>" by simp
    then show ?thesis by blast
  qed
qed

lemma UpdateObj_result:
  assumes "UpdateObj R G obj (w, h) rs = Some (obj', rs')"
  shows "\<exists>d. obj' = obj\<lparr>width := w, height := h, objdata := d\<rparr>"
proof -
  from assms obtain o1 where u: "updateObjCacheWH R G obj w h rs = Some (o1, rs')"
    and o: "obj' = o1\<lparr>width := w, height := h\<rparr>"
    by (auto simp: UpdateObj_def split: bind_splits)
  from updateObjCacheWH_frame [OF u] obtain d k where "o1 = obj\<lparr>objdata := d, height := k\<rparr>"
    by blast
  with o have "obj' = obj\<lparr>width := w, height := h, objdata := d\<rparr>" by simp
  then show ?thesis by (rule exI)
qed

lemma UpdateObj_size:
  assumes "UpdateObj R G obj (w, h) rs = Some (obj', rs')"
  shows "width obj' = w \<and> height obj' = h \<and> objx obj' = objx obj \<and> objy obj' = objy obj"
proof -
  from UpdateObj_result [OF assms] obtain d where e: "obj' = obj\<lparr>width := w, height := h, objdata := d\<rparr>"
    by blast
  show ?thesis by (simp add: e)
qed

lemma grid_inv_shape:
  "grid_inv obj = (grid_shape (objdata obj) (width obj) (height obj) \<and> 1 \<le> width obj \<and> 1 \<le> height obj)"
  by (auto simp: grid_inv_def grid_shape_def)

lemma UpdateObj_inv:
  assumes "render_rect R" "grid_inv obj" "1 \<le> w" "1 \<le> h"
    and "UpdateObj R G obj (w, h) rs = Some (obj', rs')"
  shows "grid_inv obj'"
proof -
  from assms(5) obtain o1 where u: "updateObjCacheWH R G obj w h rs = Some (o1, rs')"
    and o: "obj' = o1\<lparr>width := w, height := h\<rparr>"
    by (auto simp: UpdateObj_def split: bind_splits)
  from updateObjCacheWH_shape [OF assms(1) _ _ _ assms(3,4) u] assms(2)
  have "grid_shape (objdata o1) w h" by (simp add: grid_inv_shape)
  with o assms(3,4) show ?thesis by (simp add: grid_inv_shape)
qed

lemma updateObjCache_inv:
  assumes "render_rect R" "1 \<le> width obj" "1 \<le> height obj"
    and "updateObjCache R G obj rs = Some (obj', rs')"
  shows "grid_inv obj'"
proof -
  from updateObjCache_shape [OF assms(1) _ _ assms(4)] assms(2,3)
  obtain d where "obj' = obj\<lparr>objdata := d\<rparr>" "grid_shape d (width obj) (height obj)"
    by auto
  with assms(2,3) show ?thesis by (simp add: grid_inv_shape)
qed

lemma randomise_inv:
  assumes "grid_inv obj" and "randomise G obj sx sy w h rs = Some (obj', rs')"
  shows "grid_inv obj'"
proof -
  from randomise_frame [OF assms(2)] obtain d where
    d: "obj' = obj\<lparr>objdata := d\<rparr>" "map length d = map length (objdata obj)"
    by auto
  show ?thesis using assms(1) d(1) grid_shape_map_length [OF d(2)] by (simp add: grid_inv_shape)
qed

lemma grid_step_inv:
  assumes R: "render_rect R" and ok: "resize_ok op" and inv: "grid_inv (fst t)"
    and step: "grid_step R G op t = Some t'"
  shows "grid_inv (fst t')"
proof -
  obtain obj rs where t: "t = (obj, rs)" by (cases t)
  obtain obj' rs' where t': "t' = (obj', rs')" by (cases t')
  from inv t have i: "grid_inv obj" by simp
  then have dims: "1 \<le> width obj" "1 \<le> height obj" by (simp_all add: grid_inv_def)
  have "grid_inv obj'"
  proof (cases op)
    case Rebuild
    with step t t' have "updateObjCache R G obj rs = Some (obj', rs')" by simp
    from updateObjCache_inv [OF R dims this] show ?thesis .
  next
    case (SetType ts ty)
    with step t t' have "updateObjCache R G (obj\<lparr>tileset := ts, type := ty\<rparr>) rs = Some (obj', rs')"
      by simp
    from updateObjCache_inv [OF R _ _ this] dims show ?thesis by simp
  next
    case (Resize w h)
    with step t t' have u: "UpdateObj R G obj (w, h) rs = Some (obj', rs')" by simp
    from ok Resize have "1 \<le> w" "1 \<le> h" by simp_all
    from UpdateObj_inv [OF R i this u] show ?thesis .
  next
    case (Randomise sx sy w h)
    with step t t' have "randomise G obj sx sy w h rs = Some (obj', rs')" by simp
    from randomise_inv [OF i this] show ?thesis .
  qed
  with t' show ?thesis by simp
qed

lemma new_ObjectItem_inv:
  assumes "render_rect R" "1 \<le> w" "1 \<le> h"
    and "new_ObjectItem R G ts ty x y w h rs = Some (obj, rs')"
  shows "grid_inv obj"
  using updateObjCache_inv [OF assms(1) _ _ assms(4) [unfolded new_ObjectItem_def]] assms(2,3)
  by simp

lemma get_tile_nonneg:
  "0 \<le> y \<Longrightarrow> 0 \<le> x \<Longrightarrow>
     get_tile d y x =
       (if y < int (length d) \<and> x < int (length (d ! nat y)) then Some (d ! nat y ! nat x) else None)"
  by (auto simp: get_tile_def py_get_nonneg)

lemma set_tile_nonneg:
  "0 \<le> y \<Longrightarrow> 0 \<le> x \<Longrightarrow>
     set_tile d y x v =
       (if y < int (length d) \<and> x < int (length (d ! nat y))
        then Some (d[nat y := (d ! nat y)[nat x := v]]) else None)"
  by (auto simp: set_tile_def py_get_nonneg py_set_nonneg)

lemma get_set_tile_same:
  "0 \<le> y \<Longrightarrow> 0 \<le> x \<Longrightarrow> set_tile d y x v = Some d' \<Longrightarrow> get_tile d' y x = Some v"
  by (auto simp: get_tile_nonneg set_tile_nonneg split: if_splits)

lemma get_set_tile_other:
  assumes "0 \<le> y" "0 \<le> x" "0 \<le> y'" "0 \<le> x'" "y' \<noteq> y \<or> x' \<noteq> x"
    and "set_tile d y x v = Some d'"
  shows "get_tile d' y' x' = get_tile d y' x'"
proof -
  from assms(1,2,6) have d': "d' = d[nat y := (d ! nat y)[nat x := v]]"
    and y: "nat y < length d"
    by (auto simp: set_tile_nonneg split: if_splits)
  have ny: "nat y' = nat y \<longleftrightarrow> y' = y" and nx: "nat x' = nat x \<longleftrightarrow> x' = x"
    using assms(1-4) by auto
  show ?thesis
  proof (cases "y' = y")
    case True
    with assms(5) have "x' \<noteq> x" by simp
    with True y nx show ?thesis
      using assms(1-4) by (simp add: get_tile_nonneg d')
  next
    case False
    with ny have "nat y' \<noteq> nat y" by simp
    then show ?thesis using assms(1-4) by (simp add: get_tile_nonneg d')
  qed
qed

lemma store_choice_reads:
  assumes "0 \<le> y" "0 < x" and s: "store_choice d y x sp v = Some d'"
  shows "get_tile d' y x = Some v \<and> get_tile d' y (x - 1) = get_tile d y (x - 1)"
proof -
  from s obtain d1 where 1: "set_tile d y x v = Some d1"
    and 2: "d' = d1 \<or> (0 < y \<and> set_tile d1 (y - 1) x (v - 0x10) = Some d')"
    by (auto simp: store_choice_def split: bind_splits if_splits)
  have a: "get_tile d1 y x = Some v" using get_set_tile_same [OF _ _ 1] assms(1,2) by simp
  have b: "get_tile d1 y (x - 1) = get_tile d y (x - 1)"
    using get_set_tile_other [OF _ _ _ _ _ 1, of y "x - 1"] assms(1,2) by simp
  from 2 show ?thesis
  proof
    assume "d' = d1"
    with a b show ?thesis by simp
  next
    assume c: "0 < y \<and> set_tile d1 (y - 1) x (v - 0x10) = Some d'"
    then have 3: "set_tile d1 (y - 1) x (v - 0x10) = Some d'" and y: "0 < y" by simp_all
    have "get_tile d' y x = get_tile d1 y x"
      using get_set_tile_other [OF _ _ _ _ _ 3, of y x] assms(1,2) y by simp
    moreover have "get_tile d' y (x - 1) = get_tile d1 y (x - 1)"
      using get_set_tile_other [OF _ _ _ _ _ 3, of y "x - 1"] assms(1,2) y by simp
    ultimately show ?thesis using a b by simp
  qed
qed

lemma low_byte: "(k::int) AND 0xFF = take_bit 8 k"
  by (simp add: take_bit_eq_mask mask_eq_exp_minus_1)

lemma low_byte_chosen:
  assumes "0 \<le> c" "c < 256"
  shows "(push_bit 8 ts OR c) AND 0xFF = (c::int)"
proof -
  have "take_bit 8 (push_bit 8 ts OR c) = take_bit 8 (push_bit 8 ts) OR take_bit 8 c"
    by (simp add: take_bit_or)
  moreover have "take_bit 8 (push_bit 8 ts) = (0::int)" by (simp add: take_bit_push_bit)
  moreover have "take_bit 8 c = c" using assms by (simp add: take_bit_int_eq_self)
  ultimately show ?thesis by (simp add: low_byte)
qed

lemma choice_mem: "choice xs rs = Some (c, rs') \<Longrightarrow> c \<in> set xs"
  by (cases rs) (auto simp: choice_def split: if_splits)

lemma filter_neighbours_left:
  assumes f: "filter_neighbours tiles direction d y x = Some tiles2"
    and dir: "direction AND 1 \<noteq> 0" "0 < x"
    and l: "get_tile d y (x - 1) = Some l"
    and dist: "distinct tiles"
  shows "set tiles2 \<subseteq> set tiles - {l AND 0xFF}"
proof -
  let ?t1 = "remove1 (l AND 0xFF) tiles"
  from f dir l have "tiles2 = ?t1 \<or> (\<exists>u. tiles2 = remove1 u ?t1)"
    by (auto simp: filter_neighbours_def split: bind_splits if_splits)
  moreover have "set ?t1 = set tiles - {l AND 0xFF}" using dist by (rule set_remove1_eq)
  moreover have "set (remove1 u ?t1) \<subseteq> set ?t1" for u by (rule set_remove1_subset)
  ultimately show ?thesis by auto
qed

section \<open>The resize steps\<close>

lemma for_objs_all:
  assumes "for_objs body ps rs = Some (ps', rs')" and "list_all P ps"
    and "\<And>p r p' r'. P p \<Longrightarrow> body p r = Some (p', r') \<Longrightarrow> P p'"
  shows "list_all P ps'"
  using assms(1,2)
proof (induction ps arbitrary: rs ps')
  case Nil
  then show ?case by simp
next
  case (Cons p ps)
  from Cons.prems(1) obtain p1 r1 ps1 where
    1: "body p rs = Some (p1, r1)" and 2: "for_objs body ps r1 = Some (ps1, rs')"
    and 3: "ps' = p1 # ps1"
    by (auto split: bind_splits)
  from Cons.prems(2) have "P p" "list_all P ps" by simp_all
  from assms(3) [OF this(1) 1] Cons.IH [OF 2 this(2)] 3 show ?case by simp
qed

lemma resize_all_result:
  assumes "resize_all body g rs = Some (g', rs')"
  shows "\<exists>ps. for_objs body (objsDragging g) rs = Some (ps, rs') \<and> g' = g\<lparr>objsDragging := ps\<rparr>"
  using assms by (auto simp: resize_all_def split: bind_splits)

lemma resize_TL_sizes:
  assumes "part_ok p" "resize_TL R G cx cy dsx dsy p rs = Some (p', rs')"
  shows "part_ok p'"
  using assms
  by (auto simp: resize_TL_def part_ok_def Let_def split: prod.splits if_splits bind_splits
           dest!: UpdateObj_size)

lemma resize_TR_sizes:
  assumes "part_ok p" "resize_TR R G cx cy dsx dsy p rs = Some (p', rs')"
  shows "part_ok p'"
  using assms
  by (auto simp: resize_TR_def part_ok_def Let_def split: prod.splits if_splits bind_splits
           dest!: UpdateObj_size)

lemma resize_BL_sizes:
  assumes "part_ok p" "resize_BL R G cx cy dsx dsy p rs = Some (p', rs')"
  shows "part_ok p'"
  using assms
  by (auto simp: resize_BL_def part_ok_def Let_def split: prod.splits if_splits bind_splits
           dest!: UpdateObj_size)

lemma resize_BR_sizes:
  assumes "part_ok p" "resize_BR R G cx cy dsx dsy p rs = Some (p', rs')"
  shows "part_ok p'"
  using assms
  by (auto simp: resize_BR_def part_ok_def Let_def split: prod.splits if_splits bind_splits
           dest!: UpdateObj_size)

lemma resize_MT_sizes:
  assumes "part_ok p" "resize_MT R G cx cy dsx dsy p rs = Some (p', rs')"
  shows "part_ok p'"
  using assms
  by (auto simp: resize_MT_def part_ok_def Let_def split: prod.splits if_splits bind_splits
           dest!: UpdateObj_size)

lemma resize_ML_sizes:
  assumes "part_ok p" "resize_ML R G cx cy dsx dsy p rs = Some (p', rs')"
  shows "part_ok p'"
  using assms
  by (auto simp: resize_ML_def part_ok_def Let_def split: prod.splits if_splits bind_splits
           dest!: UpdateObj_size)

lemma resize_MB_sizes:
  assumes "part_ok p" "resize_MB R G cx cy dsx dsy p rs = Some (p', rs')"
  shows "part_ok p'"
  using assms
  by (auto simp: resize_MB_def part_ok_def Let_def split: prod.splits if_splits bind_splits
           dest!: UpdateObj_size)

lemma resize_MR_sizes:
  assumes "part_ok p" "resize_MR R G cx cy dsx dsy p rs = Some (p', rs')"
  shows "part_ok p'"
  using assms
  by (auto simp: resize_MR_def part_ok_def Let_def split: prod.splits if_splits bind_splits
           dest!: UpdateObj_size)

lemma resize_obj_sizes:
  assumes "part_ok p" "resize_obj a R G cx cy dsx dsy p rs = Some (p', rs')"
  shows "part_ok p'"
  using assms
  by (cases a)
     (auto dest: resize_TL_sizes resize_TR_sizes resize_BL_sizes resize_BR_sizes
                 resize_MT_sizes resize_ML_sizes resize_MB_sizes resize_MR_sizes)

lemma mouseMoveEvent_eq:
  "mouseMoveEvent R G buttons ex ey (g, rs) =
     (case grabbed g of
        None \<Rightarrow> Some (g, rs)
      | Some a \<Rightarrow>
          if buttons \<and> dragging g \<and>
             step_taken a (clicked (advances_x a) ex) (clicked (advances_y a) ey) (dragstartx g) (dragstarty g)
          then resize_all
                 (resize_obj a R G (clicked (advances_x a) ex) (clicked (advances_y a) ey)
                    (dragstartx g) (dragstarty g))
                 (g\<lparr>dragstartx := (if advances_x a then clicked True ex else dragstartx g),
                    dragstarty := (if advances_y a then clicked True ey else dragstarty g)\<rparr>) rs
          else Some (g, rs))"
proof (cases "buttons \<and> dragging g")
  case False
  then show ?thesis by (auto simp: mouseMoveEvent_def split: option.splits)
next
  case True
  note bd = this
  consider (TopLeft) "TLGrabbed g"
    | (TopRight) "\<not> TLGrabbed g" "TRGrabbed g"
    | (BottomLeft) "\<not> TLGrabbed g" "\<not> TRGrabbed g" "BLGrabbed g"
    | (BottomRight) "\<not> TLGrabbed g" "\<not> TRGrabbed g" "\<not> BLGrabbed g" "BRGrabbed g"
    | (MidTop) "\<not> TLGrabbed g" "\<not> TRGrabbed g" "\<not> BLGrabbed g" "\<not> BRGrabbed g" "MTGrabbed g"
    | (MidLeft) "\<not> TLGrabbed g" "\<not> TRGrabbed g" "\<not> BLGrabbed g" "\<not> BRGrabbed g" "\<not> MTGrabbed g"
        "MLGrabbed g"
    | (MidBottom) "\<not> TLGrabbed g" "\<not> TRGrabbed g" "\<not> BLGrabbed g" "\<not> BRGrabbed g" "\<not> MTGrabbed g"
        "\<not> MLGrabbed g" "MBGrabbed g"
    | (MidRight) "\<not> TLGrabbed g" "\<not> TRGrabbed g" "\<not> BLGrabbed g" "\<not> BRGrabbed g" "\<not> MTGrabbed g"
        "\<not> MLGrabbed g" "\<not> MBGrabbed g" "MRGrabbed g"
    | (none) "\<not> TLGrabbed g" "\<not> TRGrabbed g" "\<not> BLGrabbed g" "\<not> BRGrabbed g" "\<not> MTGrabbed g"
        "\<not> MLGrabbed g" "\<not> MBGrabbed g" "\<not> MRGrabbed g"
    by blast
  then show ?thesis
  proof cases
    case TopLeft
    then have a: "grabbed g = Some TopLeft" by (simp add: grabbed_def)
    show ?thesis unfolding a using bd TopLeft
      by (auto simp add: mouseMoveEvent_def Let_def clicked_def pointer_cell_def)
  next
    case TopRight
    then have a: "grabbed g = Some TopRight" by (simp add: grabbed_def)
    show ?thesis unfolding a using bd TopRight
      by (auto simp add: mouseMoveEvent_def Let_def clicked_def pointer_cell_def)
  next
    case BottomLeft
    then have a: "grabbed g = Some BottomLeft" by (simp add: grabbed_def)
    show ?thesis unfolding a using bd BottomLeft
      by (auto simp add: mouseMoveEvent_def Let_def clicked_def pointer_cell_def)
  next
    case BottomRight
    then have a: "grabbed g = Some BottomRight" by (simp add: grabbed_def)
    show ?thesis unfolding a using bd BottomRight
      by (auto simp add: mouseMoveEvent_def Let_def clicked_def pointer_cell_def)
  next
    case MidTop
    then have a: "grabbed g = Some MidTop" by (simp add: grabbed_def)
    show ?thesis unfolding a using bd MidTop
      by (auto simp add: mouseMoveEvent_def Let_def clicked_def pointer_cell_def)
  next
    case MidLeft
    then have a: "grabbed g = Some MidLeft" by (simp add: grabbed_def)
    show ?thesis unfolding a using bd MidLeft
      by (auto simp add: mouseMoveEvent_def Let_def clicked_def pointer_cell_def)
  next
    case MidBottom
    then have a: "grabbed g = Some MidBottom" by (simp add: grabbed_def)
    show ?thesis unfolding a using bd MidBottom
      by (auto simp add: mouseMoveEvent_def Let_def clicked_def pointer_cell_def)
  next
    case MidRight
    then have a: "grabbed g = Some MidRight" by (simp add: grabbed_def)
    show ?thesis unfolding a using bd MidRight
      by (auto simp add: mouseMoveEvent_def Let_def clicked_def pointer_cell_def)
  next
    case none
    then have a: "grabbed g = None" by (simp add: grabbed_def)
    show ?thesis unfolding a using bd none by (simp add: mouseMoveEvent_def Let_def)
  qed
qed

lemma mouseMoveEvent_result:
  assumes "mouseMoveEvent R G buttons ex ey (g, rs) = Some (g', rs')"
  shows "(g' = g \<and> rs' = rs) \<or>
         (\<exists>a body ps. grabbed g = Some a \<and>
            body = resize_obj a R G (clicked (advances_x a) ex) (clicked (advances_y a) ey)
                     (dragstartx g) (dragstarty g) \<and>
            for_objs body (objsDragging g) rs = Some (ps, rs') \<and>
            g' = g\<lparr>dragstartx := (if advances_x a then clicked True ex else dragstartx g),
                   dragstarty := (if advances_y a then clicked True ey else dragstarty g),
                   objsDragging := ps\<rparr>)"
proof (cases "grabbed g")
  case None
  with assms show ?thesis by (simp add: mouseMoveEvent_eq)
next
  case (Some a)
  let ?body = "resize_obj a R G (clicked (advances_x a) ex) (clicked (advances_y a) ey)
                     (dragstartx g) (dragstarty g)"
  let ?g2 = "g\<lparr>dragstartx := (if advances_x a then clicked True ex else dragstartx g),
                dragstarty := (if advances_y a then clicked True ey else dragstarty g)\<rparr>"
  from assms Some have "(g' = g \<and> rs' = rs) \<or> resize_all ?body ?g2 rs = Some (g', rs')"
    by (auto simp: mouseMoveEvent_eq split: if_splits)
  then show ?thesis
  proof
    assume "g' = g \<and> rs' = rs"
    then show ?thesis by simp
  next
    assume "resize_all ?body ?g2 rs = Some (g', rs')"
    from resize_all_result [OF this] obtain ps where
      "for_objs ?body (objsDragging g) rs = Some (ps, rs')" "g' = ?g2\<lparr>objsDragging := ps\<rparr>"
      by auto
    with Some show ?thesis by blast
  qed
qed

lemma mouseMoveEvent_sizes:
  assumes "sizes_ok g" "mouseMoveEvent R G buttons ex ey (g, rs) = Some (g', rs')"
  shows "sizes_ok g'"
proof -
  from mouseMoveEvent_result [OF assms(2)] show ?thesis
  proof
    assume "g' = g \<and> rs' = rs"
    with assms(1) show ?thesis by simp
  next
    assume "\<exists>a body ps. grabbed g = Some a \<and>
            body = resize_obj a R G (clicked (advances_x a) ex) (clicked (advances_y a) ey)
                     (dragstartx g) (dragstarty g) \<and>
            for_objs body (objsDragging g) rs = Some (ps, rs') \<and>
            g' = g\<lparr>dragstartx := (if advances_x a then clicked True ex else dragstartx g),
                   dragstarty := (if advances_y a then clicked True ey else dragstarty g),
                   objsDragging := ps\<rparr>"
    then obtain a cx cy ps where
      f: "for_objs (resize_obj a R G cx cy (dragstartx g) (dragstarty g)) (objsDragging g) rs = Some (ps, rs')"
      and g': "objsDragging g' = ps"
      by auto
    have "list_all part_ok ps"
    proof (rule for_objs_all [OF f])
      show "list_all part_ok (objsDragging g)" using assms(1) by (simp add: sizes_ok_def)
    next
      fix p r p' r'
      assume "part_ok p" "resize_obj a R G cx cy (dragstartx g) (dragstarty g) p r = Some (p', r')"
      then show "part_ok p'" by (rule resize_obj_sizes)
    qed
    with g' show ?thesis by (simp add: sizes_ok_def)
  qed
qed


section \<open>Claims about the tile grid\<close>

text \<open>
  C1 (grid shape). An object is constructed with a width and a height of at least 1, and
  then any sequence of the grid operations is run on it: a full rebuild
  (\<open>updateObjCache\<close>, also through \<open>SetType\<close>), a resize to a size of at least 1 by 1
  committed by \<open>UpdateObj\<close>, or \<open>randomise\<close> with any arguments. Whenever the sequence
  returns (no operation raised), the grid has exactly \<open>height\<close> rows, every row has exactly
  \<open>width\<close> tiles, and both are at least 1. \<open>RenderObject\<close> is asked to return a grid
  of the size it is called with.
\<close>

theorem grid_shape_invariant:
  assumes "render_rect R" and "1 \<le> w" and "1 \<le> h"
    and "new_ObjectItem R G ts ty x y w h rs = Some s0"
    and "\<forall>op \<in> set ops. resize_ok op"
    and "for_each (grid_step R G) ops s0 = Some (obj', rs')"
  shows "int (length (objdata obj')) = height obj' \<and>
         (\<forall>row \<in> set (objdata obj'). int (length row) = width obj') \<and>
         1 \<le> width obj' \<and> 1 \<le> height obj'"
proof -
  obtain o0 r0 where s0: "s0 = (o0, r0)" by (cases s0)
  have i0: "grid_inv (fst s0)"
    using new_ObjectItem_inv [OF assms(1-3)] assms(4) s0 by simp
  have "grid_inv (fst (obj', rs'))"
  proof (rule for_each_invariant [OF assms(6), where P = "\<lambda>s. grid_inv (fst s)"])
    show "grid_inv (fst s0)" by (rule i0)
  next
    fix op t t'
    assume "op \<in> set ops" "grid_inv (fst t)" "grid_step R G op t = Some t'"
    with assms(5) show "grid_inv (fst t')"
      using grid_step_inv [OF assms(1), of op t G t'] by blast
  qed
  then show ?thesis by (simp add: grid_inv_def)
qed

theorem grid_shape_invariant_witness:
  "render_rect R5 \<and>
   new_ObjectItem R5 G_rand 0 0 0 0 2 1 [] = Some (obj_with 0 0 2 1 [[5, 6]], []) \<and>
   for_each (grid_step R5 G_rand) [Resize 3 2, Rebuild, Randomise 0 0 None None, Resize 1 1]
     (obj_with 0 0 2 1 [[5, 6]], []) = Some (obj_with 0 0 1 1 [[5]], []) \<and>
   grid_inv (obj_with 0 0 1 1 [[5]])"
proof -
  have r: "render_rect R5" by (simp add: render_rect_def R5_def)
  have n: "new_ObjectItem R5 G_rand 0 0 0 0 2 1 [] = Some (obj_with 0 0 2 1 [[5, 6]], [])"
    by code_simp
  have f: "for_each (grid_step R5 G_rand) [Resize 3 2, Rebuild, Randomise 0 0 None None, Resize 1 1]
     (obj_with 0 0 2 1 [[5, 6]], []) = Some (obj_with 0 0 1 1 [[5]], [])"
    by code_simp
  have ok: "\<forall>op \<in> set [Resize 3 2, Rebuild, Randomise 0 0 None None, Resize 1 1]. resize_ok op"
    by simp
  have "grid_inv (obj_with 0 0 1 1 [[5]])"
    using grid_shape_invariant [OF r _ _ n ok f] by (simp add: grid_inv_def)
  with r n f show ?thesis by blast
qed

text \<open>
  C2 (randomisation exclusion). The loop body of \<open>randomise\<close> runs on the cell in row
  \<open>y\<close>, column \<open>x > 0\<close>, whose tile has an entry with direction bit 0 set and is not
  passed over as the top half of a pair. The candidates of the table are a set of bytes
  (no candidate twice, each from 0 to 255). If the candidates left after removing the
  neighbours' tiles are not empty, then for every random source the low byte of the value
  stored in the cell differs from the low byte of the left neighbour, which the body
  leaves as it was.
\<close>

theorem randomisation_exclusion:
  assumes "0 \<le> y" and "0 < x"
    and "get_tile data y x = Some v"
    and "tinfo (v AND 0xFF) = Some (tiles, direction, special)"
    and "special AND 1 = 0"
    and "direction AND 1 \<noteq> 0"
    and "get_tile data y (x - 1) = Some l"
    and "distinct tiles" and "\<forall>t \<in> set tiles. 0 \<le> t \<and> t < 256"
    and "filter_neighbours tiles direction data y x = Some tiles2" and "tiles2 \<noteq> []"
    and "randomise_cell tinfo ts y x (data, rs) = Some (data', rs')"
  shows "\<exists>c. get_tile data' y x = Some c \<and> c AND 0xFF \<noteq> l AND 0xFF \<and>
             get_tile data' y (x - 1) = Some l"
proof -
  from assms(3,4,5,10,11,12) obtain c where
    c: "choice tiles2 rs = Some (c, rs')"
    and s: "store_choice data y x special (push_bit 8 ts OR c) = Some data'"
    by (auto simp: randomise_cell_def split: bind_splits prod.splits if_splits)
  from choice_mem [OF c] filter_neighbours_left [OF assms(10,6,2,7,8)]
  have mem: "c \<in> set tiles" and ne: "c \<noteq> l AND 0xFF" by auto
  from mem assms(9) have "0 \<le> c" "c < 256" by auto
  then have low: "(push_bit 8 ts OR c) AND 0xFF = c" by (rule low_byte_chosen)
  from store_choice_reads [OF assms(1,2) s] assms(7)
  have "get_tile data' y x = Some (push_bit 8 ts OR c)" and "get_tile data' y (x - 1) = Some l"
    by simp_all
  with low ne show ?thesis by simp
qed

theorem randomisation_exclusion_witness:
  "get_tile [[5, 5]] 0 1 = Some 5 \<and>
   the (info_left ''Pa0_jyotyu'') (5 AND 0xFF) = Some ([5, 6], 1, 0) \<and>
   filter_neighbours [5, 6] 1 [[5, 5]] 0 1 = Some [6] \<and>
   randomise_cell (the (info_left ''Pa0_jyotyu'')) 0 0 1 ([[5, 5]], [3]) = Some ([[5, 6]], []) \<and>
   (\<exists>c. get_tile [[5, 6]] 0 1 = Some c \<and> c AND 0xFF \<noteq> 5 AND 0xFF \<and>
        get_tile [[5, 6]] 0 (1 - 1) = Some 5)"
proof -
  let ?t = "the (info_left ''Pa0_jyotyu'')"
  have g: "get_tile [[5, 5]] 0 1 = Some 5" by code_simp
  have t: "?t (5 AND 0xFF) = Some ([5, 6], 1, 0)" by (simp add: info_left_def)
  have l: "get_tile [[5, 5]] 0 (1 - 1) = Some 5" by code_simp
  have f: "filter_neighbours [5, 6] 1 [[5, 5]] 0 1 = Some [6]" by code_simp
  have r: "randomise_cell ?t 0 0 1 ([[5, 5]], [3]) = Some ([[5, 6]], [])"
    by (simp add: info_left_def randomise_cell_def get_tile_def py_get_def filter_neighbours_def
          choice_def store_choice_def set_tile_def py_set_def)
  have "\<exists>c. get_tile [[5, 6]] 0 1 = Some c \<and> c AND 0xFF \<noteq> 5 AND 0xFF \<and>
        get_tile [[5, 6]] 0 (1 - 1) = Some 5"
    using randomisation_exclusion [OF _ _ g t _ _ l _ _ f _ r] by simp
  with g t f r show ?thesis by blast
qed

text \<open>
  C10 (the gate looks at the first definition tile only). The object's definition has
  randomisation info and its tileset is in the table, but the first tile of the
  definition, \<open>rows[0][0][1]\<close> masked to its low byte, has no entry. Then
  \<open>updateObjCacheWH\<close> is the full rebuild at the new size: the size is swapped in, the grid
  rendered anew and randomised by \<open>updateObjCache\<close>, and the old size swapped back,
  whatever the new size (a shrink included) and whatever grid \<open>data\<close> the object holds.
\<close>

theorem first_tile_gate:
  assumes "randomisation_info G (tileset obj) (type obj) = Some (Some (path, info, e))"
    and "py_get e 1 = Some t"
    and "info (tileset_name path) = Some tinfo"
    and "tinfo (t AND 0xFF) = None"
  shows "updateObjCacheWH R G (obj\<lparr>objdata := data\<rparr>) w h rs =
         do {
           (obj', rs') \<leftarrow> updateObjCache R G (obj\<lparr>width := w, height := h\<rparr>) rs;
           Some (obj'\<lparr>width := width obj, height := height obj\<rparr>, rs')
         }"
  using assms by (simp add: updateObjCacheWH_def rerender_def updateObjCache_def)

theorem first_tile_gate_witness:
  "randomisation_info G_first (tileset (obj_with 0 0 2 2 [])) (type (obj_with 0 0 2 2 []))
     = Some (Some (''Tilesets/Pa0_jyotyu.arc'', info_free, [0, 7, 0])) \<and>
   py_get [0, 7, 0] 1 = Some (7::int) \<and>
   info_free (tileset_name ''Tilesets/Pa0_jyotyu.arc'') = Some (the (info_free ''Pa0_jyotyu'')) \<and>
   the (info_free ''Pa0_jyotyu'') (7 AND 0xFF) = None \<and>
   updateObjCacheWH R5 G_first ((obj_with 0 0 2 2 [])\<lparr>objdata := [[6, 6], [6, 6]]\<rparr>) 1 1 [1] =
     do {
       (obj', rs') \<leftarrow> updateObjCache R5 G_first ((obj_with 0 0 2 2 [])\<lparr>width := 1, height := 1\<rparr>) [1];
       Some (obj'\<lparr>width := width (obj_with 0 0 2 2 []), height := height (obj_with 0 0 2 2 [])\<rparr>, rs')
     } \<and>
   updateObjCacheWH R5 G_first ((obj_with 0 0 2 2 [])\<lparr>objdata := [[6, 6], [6, 6]]\<rparr>) 1 1 [1] =
     Some (obj_with 0 0 2 2 [[6]], [])"
proof -
  have a: "randomisation_info G_first (tileset (obj_with 0 0 2 2 [])) (type (obj_with 0 0 2 2 []))
     = Some (Some (''Tilesets/Pa0_jyotyu.arc'', info_free, [0, 7, 0]))"
    by (simp add: randomisation_info_def G_first_def obj_with_def py_get_def)
  have b: "py_get [0, 7, 0] 1 = Some (7::int)" by code_simp
  have n: "tileset_name ''Tilesets/Pa0_jyotyu.arc'' = ''Pa0_jyotyu''" by code_simp
  have c: "info_free (tileset_name ''Tilesets/Pa0_jyotyu.arc'') = Some (the (info_free ''Pa0_jyotyu''))"
    unfolding n by (simp add: info_free_def)
  have d: "the (info_free ''Pa0_jyotyu'') (7 AND 0xFF) = None" by (simp add: info_free_def)
  have v: "updateObjCacheWH R5 G_first ((obj_with 0 0 2 2 [])\<lparr>objdata := [[6, 6], [6, 6]]\<rparr>) 1 1 [1] =
     Some (obj_with 0 0 2 2 [[6]], [])"
    by code_simp
  from first_tile_gate [OF a b c d, of R5 "[[6, 6], [6, 6]]" 1 1 "[1]"] a b c d v
  show ?thesis by blast
qed

lemma same_size_incremental:
  assumes "randomisation_info G (tileset obj) (type obj) = Some (Some (path, info, e))"
    and "py_get e 1 = Some t"
    and "info (tileset_name path) = Some tinfo"
    and "tinfo (t AND 0xFF) = Some entry"
  shows "updateObjCacheWH R G obj (width obj) (height obj) rs = Some (obj, rs)"
  using assms by (simp add: updateObjCacheWH_def)

lemma same_size_no_info:
  assumes "randomisation_info G (tileset obj) (type obj) = Some None"
    and "objdata obj = R (tileset obj) (type obj) (width obj) (height obj)"
  shows "updateObjCacheWH R G obj (width obj) (height obj) rs = Some (obj, rs)"
  using assms(1) assms(2) [symmetric]
  by (simp add: updateObjCacheWH_def rerender_def updateObjCache_def randomise_def)

lemma same_size_no_table:
  assumes "randomisation_info G (tileset obj) (type obj) = Some (Some (path, info, e))"
    and "py_get e 1 = Some t"
    and "info (tileset_name path) = None"
    and "objdata obj = R (tileset obj) (type obj) (width obj) (height obj)"
  shows "updateObjCacheWH R G obj (width obj) (height obj) rs = Some (obj, rs)"
  using assms(1,2,3) assms(4) [symmetric]
  by (simp add: updateObjCacheWH_def rerender_def updateObjCache_def randomise_def)

text \<open>
  C4 (a resize to the current size). The claim: \<open>updateObjCacheWH(w, h)\<close> with the current
  width and height leaves \<open>self.objdata\<close> as it is, for every object. The three lemmas
  above give this for the incremental path and, on the two exits that render the grid
  anew, for an object without randomisation info or whose tileset the table does not
  have, when the grid is the one \<open>RenderObject\<close> returns. The code at the remaining
  objects: the tileset is in the table and the first tile of the definition is not, so
  the exit under the comment \<open>no randomisation needed\<close> is taken, and the \<open>updateObjCache\<close>
  it calls randomises the new grid. The object of definition 7, 5 is built 2 by 1 with
  the grid \<open>[[7, 5]]\<close>; after \<open>updateObjCacheWH(2, 1)\<close> it holds \<open>[[7, 6]]\<close>.
\<close>

theorem same_size_failing_input:
  "new_ObjectItem R75 G_two 0 0 0 0 2 1 [0] = Some (obj_with 0 0 2 1 [[7, 5]], []) \<and>
   updateObjCacheWH R75 G_two (obj_with 0 0 2 1 [[7, 5]])
     (width (obj_with 0 0 2 1 [[7, 5]])) (height (obj_with 0 0 2 1 [[7, 5]])) [1]
     = Some (obj_with 0 0 2 1 [[7, 6]], []) \<and>
   objdata (obj_with 0 0 2 1 [[7, 6]]) \<noteq> objdata (obj_with 0 0 2 1 [[7, 5]])"
  by code_simp

section \<open>One participant in one step\<close>





section \<open>Claims about resizing\<close>

text \<open>
  C3 (minimum size). A resize gesture on any of the eight anchors starts with participants
  whose committed width and height are at least 1. After any sequence of pointer moves,
  whatever the pointer positions, every participant's committed width and height are at
  least 1; a sequence is any prefix of a longer one, so this holds after each step.
\<close>

theorem minimum_size_floor:
  assumes "\<forall>p \<in> set (objsDragging g). 1 \<le> width (fst p) \<and> 1 \<le> height (fst p)"
    and "for_each (\<lambda>(buttons, ex, ey). mouseMoveEvent R G buttons ex ey) events (g, rs) = Some (g', rs')"
  shows "\<forall>p \<in> set (objsDragging g'). 1 \<le> width (fst p) \<and> 1 \<le> height (fst p)"
proof -
  have eq: "sizes_ok k = (\<forall>p \<in> set (objsDragging k). 1 \<le> width (fst p) \<and> 1 \<le> height (fst p))" for k
    by (auto simp: sizes_ok_def part_ok_def list_all_iff)
  have "sizes_ok (fst (g', rs'))"
  proof (rule for_each_invariant [OF assms(2), where P = "\<lambda>s. sizes_ok (fst s)"])
    show "sizes_ok (fst (g, rs))" using assms(1) by (simp add: eq)
  next
    fix e t t'
    assume "sizes_ok (fst t)" and "(case e of (buttons, ex, ey) \<Rightarrow> mouseMoveEvent R G buttons ex ey) t = Some t'"
    then show "sizes_ok (fst t')"
      using mouseMoveEvent_sizes [of "fst t" R G "fst e" "fst (snd e)" "snd (snd e)" "snd t" "fst t'" "snd t'"]
      by (simp add: case_prod_beta)
  qed
  then show ?thesis by (simp add: eq)
qed

theorem minimum_size_floor_witness:
  "sizes_ok (drag_of BottomRight 2 2 [obj_at 0 0 3 3, obj_at 5 5 1 1]) \<and>
   drag_report (for_each (\<lambda>(buttons, ex, ey). mouseMoveEvent R5 G_plain buttons ex ey)
       [(True, - 100, - 100), (True, 36, 12)]
       (drag_of BottomRight 2 2 [obj_at 0 0 3 3, obj_at 5 5 1 1], []))
     = Some (1, 0, [(0, 0, 2, 1, 2, 1), (5, 5, 1, 1, 0, - 1)]) \<and>
   sizes_ok (fst (the (for_each (\<lambda>(buttons, ex, ey). mouseMoveEvent R5 G_plain buttons ex ey)
       [(True, - 100, - 100), (True, 36, 12)]
       (drag_of BottomRight 2 2 [obj_at 0 0 3 3, obj_at 5 5 1 1], []))))"
proof -
  let ?g = "drag_of BottomRight 2 2 [obj_at 0 0 3 3, obj_at 5 5 1 1]"
  let ?run = "for_each (\<lambda>(buttons, ex, ey). mouseMoveEvent R5 G_plain buttons ex ey)
       [(True, - 100, - 100), (True, 36, 12)] (?g, [])"
  have a: "sizes_ok ?g" by code_simp
  have b: "drag_report ?run = Some (1, 0, [(0, 0, 2, 1, 2, 1), (5, 5, 1, 1, 0, - 1)])"
    by code_simp
  then obtain g' rs' where r: "?run = Some (g', rs')"
    by (cases ?run) (auto simp: drag_report_def)
  have a': "\<forall>p \<in> set (objsDragging ?g). 1 \<le> width (fst p) \<and> 1 \<le> height (fst p)"
    using a by (auto simp: sizes_ok_def part_ok_def list_all_iff)
  from minimum_size_floor [OF a' r] have "sizes_ok g'"
    by (auto simp: sizes_ok_def part_ok_def list_all_iff)
  with a b r show ?thesis by simp
qed






text \<open>
  C7 (the reference cell of the gesture). As the claim states it, after a step that
  commits a size on an axis, \<open>dragstartx\<close> or \<open>dragstarty\<close> is the pointer cell on that
  axis, under every anchor. At the top left corner a step that moves the left edge one
  cell to the right (from width 3 at x = 5 to width 2 at x = 6) leaves \<open>dragstartx\<close> at
  0 while the pointer cell is 1.
\<close>

theorem anchor_reference_counterexample:
  "drag_report (mouseMoveEvent R5 G_plain True 36 12 (drag_of TopLeft 0 0 [obj_at 5 5 3 3], []))
     = Some (0, 0, [(6, 5, 2, 3, 2, 3)]) \<and>
   pointer_cell 36 = 1"
  by code_simp

text \<open>
  C7 as amended. \<open>dragstartx\<close> is assigned only in the branches of the anchors on the
  right edge (top right, bottom right, middle right) and \<open>dragstarty\<close> only in those of
  the bottom edge (bottom left, bottom right, middle bottom), the axes on which the origin
  of the object stays. There it becomes the pointer cell, raised to 0 when negative,
  whenever the branch runs its loop, whether or not a participant commits a size. On the
  other axes, and under the other anchors, it keeps its value.
\<close>

theorem anchor_reference:
  assumes "mouseMoveEvent R G buttons ex ey (g, rs) = Some (g', rs')"
  shows "dragstartx g' =
           (case grabbed g of
              None \<Rightarrow> dragstartx g
            | Some a \<Rightarrow>
                if buttons \<and> dragging g \<and> advances_x a \<and>
                   step_taken a (clicked (advances_x a) ex) (clicked (advances_y a) ey)
                     (dragstartx g) (dragstarty g)
                then clicked True ex else dragstartx g) \<and>
         dragstarty g' =
           (case grabbed g of
              None \<Rightarrow> dragstarty g
            | Some a \<Rightarrow>
                if buttons \<and> dragging g \<and> advances_y a \<and>
                   step_taken a (clicked (advances_x a) ex) (clicked (advances_y a) ey)
                     (dragstartx g) (dragstarty g)
                then clicked True ey else dragstarty g)"
proof (cases "grabbed g")
  case None
  with assms show ?thesis by (simp add: mouseMoveEvent_eq)
next
  case (Some a)
  show ?thesis
  proof (cases "buttons \<and> dragging g \<and>
      step_taken a (clicked (advances_x a) ex) (clicked (advances_y a) ey) (dragstartx g) (dragstarty g)")
    case False
    with assms Some have "g' = g" by (auto simp: mouseMoveEvent_eq split: if_splits)
    with False Some show ?thesis by auto
  next
    case True
    with assms Some have
      "resize_all (resize_obj a R G (clicked (advances_x a) ex) (clicked (advances_y a) ey)
          (dragstartx g) (dragstarty g))
        (g\<lparr>dragstartx := (if advances_x a then clicked True ex else dragstartx g),
           dragstarty := (if advances_y a then clicked True ey else dragstarty g)\<rparr>) rs = Some (g', rs')"
      by (simp add: mouseMoveEvent_eq)
    from resize_all_result [OF this] obtain ps where
      "g' = g\<lparr>dragstartx := (if advances_x a then clicked True ex else dragstartx g),
             dragstarty := (if advances_y a then clicked True ey else dragstarty g),
             objsDragging := ps\<rparr>"
      by auto
    with True Some show ?thesis by simp
  qed
qed

theorem anchor_reference_witness:
  "drag_report (mouseMoveEvent R5 G_plain True 12 60 (drag_of BottomRight 2 2 [obj_at 0 0 3 3], []))
     = Some (0, 2, [(0, 0, 1, 3, 1, 3)]) \<and>
   grabbed (drag_of BottomRight 2 2 [obj_at 0 0 3 3]) = Some BottomRight \<and>
   clicked True 12 = 0 \<and> clicked True 60 = 2 \<and>
   dragstartx (fst (the (mouseMoveEvent R5 G_plain True 12 60 (drag_of BottomRight 2 2 [obj_at 0 0 3 3], [])))) = 0 \<and>
   dragstarty (fst (the (mouseMoveEvent R5 G_plain True 12 60 (drag_of BottomRight 2 2 [obj_at 0 0 3 3], [])))) = 2"
proof -
  let ?g = "drag_of BottomRight 2 2 [obj_at 0 0 3 3]"
  let ?r = "mouseMoveEvent R5 G_plain True 12 60 (?g, [])"
  have a: "drag_report ?r = Some (0, 2, [(0, 0, 1, 3, 1, 3)])" by code_simp
  then obtain g' rs' where r: "?r = Some (g', rs')" by (cases ?r) (auto simp: drag_report_def)
  have b: "grabbed ?g = Some BottomRight" by code_simp
  have c: "clicked True 12 = 0" "clicked True 60 = 2" by code_simp+
  have d: "dragging ?g" "dragstartx ?g = 2" "dragstarty ?g = 2" by (simp_all add: drag_of_def)
  from anchor_reference [OF r] b c d have "dragstartx g' = 0 \<and> dragstarty g' = 2" by simp
  with a b c r show ?thesis by simp
qed

section \<open>Claims about moving items\<close>

text \<open>
  C8 (one composite undo record). As the claim states it, a drag that changes the cell of
  one item of a selection of several hands one \<open>SimultaneousUndoAction\<close> to the undo
  stack, for every kind of item, \<open>ObjectItem\<close> included. \<open>ObjectItem.itemChange\<close> has the
  branch \<open>elif len(CurrentSelection) > 1: pass\<close>: for an object dragged two cells to the
  right in a selection of two, no action is handed over.
\<close>

theorem composite_undo_counterexample:
  "ObjectItem_itemChange S_mixed 1 True (obj_at 0 0 1 1) (48, 0)
     = ((48, 0), (obj_at 0 0 1 1)\<lparr>objx := 2\<rparr>, None) \<and>
   length (CurrentSelection S_mixed) = 2 \<and>
   objx ((obj_at 0 0 1 1)\<lparr>objx := 2\<rparr>) \<noteq> objx (obj_at 0 0 1 1)"
  by code_simp

text \<open>
  C8 as amended. With more than one item selected, a change of cell of an item whose
  class takes \<open>LevelEditorItem.itemChange\<close> and is not \<open>PathEditorLineItem\<close> hands exactly
  one action to the undo stack, a \<open>SimultaneousUndoAction\<close> of the move of the dragged item
  and, for every other selected item, a move from its cell to the same cell.
  \<open>ObjectItem.itemChange\<close> hands over no action when more than one item is selected.
\<close>

theorem composite_undo:
  "(1 < length (CurrentSelection S) \<and>
    LevelEditorItem_itemChange S me in_scene is_selected False it value = (newpos, it', act) \<and>
    (objx it' \<noteq> objx it \<or> objy it' \<noteq> objy it) \<longrightarrow>
      act = Some (SimultaneousUndoAction
               (MoveItemUndoAction me (objx it) (objy it) (objx it') (objy it') #
                map (\<lambda>(i, is_obj, ix, iy). MoveItemUndoAction i ix iy ix iy)
                    (filter (\<lambda>(i, is_obj, ix, iy). i \<noteq> me) (CurrentSelection S))))) \<and>
   (1 < length (CurrentSelection S) \<and>
    ObjectItem_itemChange S me in_scene obj value = (newpos', obj', act') \<longrightarrow> act' = None)"
  by (auto simp: LevelEditorItem_itemChange_def ObjectItem_itemChange_def undo_for_move_def Let_def
           split: if_splits)

theorem composite_undo_witness:
  "1 < length (CurrentSelection S_pair) \<and>
   LevelEditorItem_itemChange S_pair 1 True True False (item_at 4 0) (48, 0)
     = ((54, 0), (item_at 4 0)\<lparr>objx := 36\<rparr>,
        Some (SimultaneousUndoAction [MoveItemUndoAction 1 4 0 36 0, MoveItemUndoAction 2 20 0 20 0])) \<and>
   objx ((item_at 4 0)\<lparr>objx := 36\<rparr>) \<noteq> objx (item_at 4 0) \<and>
   Some (SimultaneousUndoAction [MoveItemUndoAction 1 4 0 36 0, MoveItemUndoAction 2 20 0 20 0])
     = Some (SimultaneousUndoAction
               (MoveItemUndoAction 1 (objx (item_at 4 0)) (objy (item_at 4 0))
                  (objx ((item_at 4 0)\<lparr>objx := 36\<rparr>)) (objy ((item_at 4 0)\<lparr>objx := 36\<rparr>)) #
                map (\<lambda>(i, is_obj, ix, iy). MoveItemUndoAction i ix iy ix iy)
                    (filter (\<lambda>(i, is_obj, ix, iy). i \<noteq> 1) (CurrentSelection S_pair))))"
proof -
  have a: "1 < length (CurrentSelection S_pair)" by (simp add: S_pair_def)
  have b: "LevelEditorItem_itemChange S_pair 1 True True False (item_at 4 0) (48, 0)
     = ((54, 0), (item_at 4 0)\<lparr>objx := 36\<rparr>,
        Some (SimultaneousUndoAction [MoveItemUndoAction 1 4 0 36 0, MoveItemUndoAction 2 20 0 20 0]))"
    by code_simp
  have c: "objx ((item_at 4 0)\<lparr>objx := 36\<rparr>) \<noteq> objx (item_at 4 0)" by (simp add: item_at_def)
  from composite_undo [of S_pair 1 True True "item_at 4 0" "(48, 0)" "(54, 0)"
      "(item_at 4 0)\<lparr>objx := 36\<rparr>"
      "Some (SimultaneousUndoAction [MoveItemUndoAction 1 4 0 36 0, MoveItemUndoAction 2 20 0 20 0])"]
    a b c
  have "Some (SimultaneousUndoAction [MoveItemUndoAction 1 4 0 36 0, MoveItemUndoAction 2 20 0 20 0])
     = Some (SimultaneousUndoAction
               (MoveItemUndoAction 1 (objx (item_at 4 0)) (objy (item_at 4 0))
                  (objx ((item_at 4 0)\<lparr>objx := 36\<rparr>)) (objy ((item_at 4 0)\<lparr>objx := 36\<rparr>)) #
                map (\<lambda>(i, is_obj, ix, iy). MoveItemUndoAction i ix iy ix iy)
                    (filter (\<lambda>(i, is_obj, ix, iy). i \<noteq> 1) (CurrentSelection S_pair))))"
    by blast
  with a b c show ?thesis by blast
qed

subsection \<open>Snapping a snapped position\<close>

lemma clamp_idem: "0 \<le> B \<Longrightarrow> clamp B (clamp B x) = clamp B x"
  by (simp add: clamp_def)

lemma clamp_cases:
  "0 \<le> B \<Longrightarrow> clamp B v = B \<or> clamp B v = 0 \<or> (clamp B v = v \<and> 0 \<le> v)"
  by (auto simp: clamp_def)

lemma clamp_inside: "0 < clamp B v \<Longrightarrow> clamp B v < B \<Longrightarrow> clamp B v = v"
  by (auto simp: clamp_def split: if_splits)

lemma py_int_floor: "0 \<le> q \<Longrightarrow> py_int q = \<lfloor>q\<rfloor>"
  by (simp add: py_int_def)

lemma py_int_nonneg: "0 \<le> q \<Longrightarrow> 0 \<le> py_int q"
  by (simp add: py_int_def)

lemma py_int_half: "0 \<le> k \<Longrightarrow> py_int (of_int k + 1 / 2) = k"
proof -
  assume k: "0 \<le> k"
  have "\<lfloor>(of_int k + 1 / 2 :: rat)\<rfloor> = k" by (rule floor_unique) simp_all
  moreover have "(0::rat) \<le> of_int k + 1 / 2" using k by simp
  ultimately show ?thesis by (simp add: py_int_def)
qed

lemma grid12: "0 \<le> k \<Longrightarrow> py_int ((of_int (k * 12) + 6) / 12) = k"
proof -
  assume k: "0 \<le> k"
  have e: "(of_int (k * 12) + 6) / 12 = (of_int k + 1 / 2 :: rat)" by (simp add: field_simps)
  show ?thesis by (simp only: e py_int_half [OF k])
qed

lemma grid24: "0 \<le> k \<Longrightarrow> py_int ((of_int (k * 24) + 12) / 24) = k"
proof -
  assume k: "0 \<le> k"
  have e: "(of_int (k * 24) + 12) / 24 = (of_int k + 1 / 2 :: rat)" by (simp add: field_simps)
  show ?thesis by (simp only: e py_int_half [OF k])
qed

lemma clamp_grid:
  assumes "0 \<le> n" "0 < G"
  shows "\<exists>k. 0 \<le> k \<and> clamp (of_int (n * G)) (of_int (m * G)) = of_int (k * G)"
proof -
  let ?B = "of_int (n * G) :: rat"
  let ?v = "of_int (m * G) :: rat"
  have B: "0 \<le> ?B" using assms by simp
  from clamp_cases [OF B, of ?v] consider
    (hi) "clamp ?B ?v = ?B" | (lo) "clamp ?B ?v = 0" | (mid) "clamp ?B ?v = ?v" "0 \<le> ?v"
    by blast
  then show ?thesis
  proof cases
    case hi
    with assms(1) show ?thesis by blast
  next
    case lo
    show ?thesis
    proof (intro exI [of _ 0] conjI)
      show "(0::int) \<le> 0" by simp
      show "clamp ?B ?v = of_int (0 * G)" using lo by simp
    qed
  next
    case mid
    from mid(2) have "0 \<le> m * G" by (simp only: of_int_0_le_iff)
    with assms(2) have "0 \<le> m" by (simp add: zero_le_mult_iff)
    with mid(1) show ?thesis by blast
  qed
qed

lemma snap_plain_idem:
  assumes n: "0 \<le> n" and B: "B = of_int (n * 12)"
  shows "snap_plain B (snap_plain B x) = snap_plain B x"
proof -
  have "(0::int) < 12" by simp
  from clamp_grid [OF n this, of "py_int ((x + 6) / 12)"] obtain k where
    k: "0 \<le> k" and s: "snap_plain B x = of_int (k * 12)"
    unfolding snap_plain_def B by blast
  have B0: "0 \<le> B" unfolding B using n by simp
  have "snap_plain B (of_int (k * 12)) = clamp B (of_int (k * 12))"
    by (simp only: snap_plain_def grid12 [OF k])
  also have "\<dots> = clamp B (snap_plain B x)" by (simp only: s)
  also have "\<dots> = snap_plain B x" unfolding snap_plain_def by (rule clamp_idem [OF B0])
  finally show ?thesis by (simp only: s)
qed

lemma snap_block_idem:
  assumes n: "0 \<le> n" and B: "B = of_int (n * 24)"
  shows "snap_block B (snap_block B x) = snap_block B x"
proof -
  have "(0::int) < 24" by simp
  from clamp_grid [OF n this, of "py_int ((x + 12) / 24)"] obtain k where
    k: "0 \<le> k" and s: "snap_block B x = of_int (k * 24)"
    unfolding snap_block_def B by blast
  have B0: "0 \<le> B" unfolding B using n by simp
  have "snap_block B (of_int (k * 24)) = clamp B (of_int (k * 24))"
    by (simp only: snap_block_def grid24 [OF k])
  also have "\<dots> = clamp B (snap_block B x)" by (simp only: s)
  also have "\<dots> = snap_block B x" unfolding snap_block_def by (rule clamp_idem [OF B0])
  finally show ?thesis by (simp only: s)
qed

lemma halves:
  fixes k v :: int
  assumes "v = (3 * k) div 2"
  shows "(2 * of_int v :: rat) \<le> 3 * of_int k" and "(3 * of_int k :: rat) \<le> 2 * of_int v + 1"
proof -
  have i: "2 * v \<le> 3 * k" "3 * k \<le> 2 * v + 1" unfolding assms by presburger+
  have "(of_int (2 * v) :: rat) \<le> of_int (3 * k)" using i(1) by (simp only: of_int_le_iff)
  then show "(2 * of_int v :: rat) \<le> 3 * of_int k" by simp
  have "(of_int (3 * k) :: rat) \<le> of_int (2 * v + 1)" using i(2) by (simp only: of_int_le_iff)
  then show "(3 * of_int k :: rat) \<le> 2 * of_int v + 1" by simp
qed

lemma fine_value: "0 \<le> k \<Longrightarrow> py_int (of_int k * (3 / 2)) = (3 * k) div 2"
proof -
  assume k: "0 \<le> k"
  define v where "v = (3 * k) div 2"
  note r = halves [OF v_def]
  have e: "(of_int k * (3 / 2) :: rat) = 3 * of_int k / 2" by simp
  have lo: "of_int v \<le> (3 * of_int k / 2 :: rat)" using r(1) by linarith
  have hi: "(3 * of_int k / 2 :: rat) < of_int v + 1" using r(2) by linarith
  have f: "\<lfloor>3 * of_int k / 2 :: rat\<rfloor> = v" by (rule floor_unique [OF lo hi])
  have nn: "(0::rat) \<le> 3 * of_int k / 2" using k by simp
  have "py_int (3 * of_int k / 2) = v" unfolding py_int_floor [OF nn] by (rule f)
  then show ?thesis unfolding e v_def .
qed

lemma fine_grid:
  assumes "0 \<le> k"
  shows "py_int ((of_int (py_int (of_int k * (3 / 2))) + 3 / 4) / (3 / 2)) = k"
proof -
  define v where "v = (3 * k) div 2"
  have fv: "py_int (of_int k * (3 / 2)) = v" unfolding v_def by (rule fine_value [OF assms])
  note r = halves [OF v_def]
  have qe: "(of_int v + 3 / 4) / (3 / 2) = (2 * of_int v / 3 + 1 / 2 :: rat)" by (simp add: field_simps)
  have lo: "of_int k \<le> (2 * of_int v / 3 + 1 / 2 :: rat)" using r(2) by linarith
  have hi: "(2 * of_int v / 3 + 1 / 2 :: rat) < of_int k + 1" using r(1) by linarith
  have f: "\<lfloor>2 * of_int v / 3 + 1 / 2 :: rat\<rfloor> = k" by (rule floor_unique [OF lo hi])
  have k0: "(0::rat) \<le> of_int k" using assms by simp
  with lo have nn: "(0::rat) \<le> 2 * of_int v / 3 + 1 / 2" by linarith
  have "py_int (2 * of_int v / 3 + 1 / 2) = k" unfolding py_int_floor [OF nn] by (rule f)
  then show ?thesis by (simp only: fv qe)
qed

lemma fine_negative:
  assumes "0 \<le> py_int (of_int m * (3 / 2))"
  shows "0 \<le> m"
proof (rule ccontr)
  assume "\<not> 0 \<le> m"
  then have "m \<le> - 1" by simp
  then have "(of_int m :: rat) \<le> of_int (- 1)" by (simp only: of_int_le_iff)
  then have q: "(of_int m * (3 / 2) :: rat) \<le> - 1" by simp
  then have "\<not> (0::rat) \<le> of_int m * (3 / 2)" by linarith
  then have "py_int (of_int m * (3 / 2)) = \<lceil>of_int m * (3 / 2) :: rat\<rceil>" by (simp only: py_int_def if_False)
  moreover from q have "\<lceil>of_int m * (3 / 2) :: rat\<rceil> \<le> - 1" by (simp only: ceiling_le_iff)
  ultimately show False using assms by linarith
qed

lemma clamp_fine:
  assumes "0 \<le> n"
  shows "\<exists>k. 0 \<le> k \<and>
           clamp (of_int (py_int (of_int n * (3 / 2)))) (of_int (py_int (of_int m * (3 / 2))))
             = of_int (py_int (of_int k * (3 / 2)))"
proof -
  let ?B = "of_int (py_int (of_int n * (3 / 2))) :: rat"
  let ?v = "of_int (py_int (of_int m * (3 / 2))) :: rat"
  have "0 \<le> py_int (of_int n * (3 / 2))" by (rule py_int_nonneg) (use assms in simp)
  then have B: "0 \<le> ?B" by (simp only: of_int_0_le_iff)
  from clamp_cases [OF B, of ?v] consider
    (hi) "clamp ?B ?v = ?B" | (lo) "clamp ?B ?v = 0" | (mid) "clamp ?B ?v = ?v" "0 \<le> ?v"
    by blast
  then show ?thesis
  proof cases
    case hi
    with assms show ?thesis by blast
  next
    case lo
    have z: "(of_int (py_int (of_int 0 * (3 / 2))) :: rat) = 0" by (simp add: py_int_def)
    show ?thesis
    proof (intro exI [of _ 0] conjI)
      show "(0::int) \<le> 0" by simp
      show "clamp ?B ?v = of_int (py_int (of_int 0 * (3 / 2)))" unfolding z by (rule lo)
    qed
  next
    case mid
    from mid(2) have "0 \<le> py_int (of_int m * (3 / 2))" by (simp only: of_int_0_le_iff)
    then have "0 \<le> m" by (rule fine_negative)
    with mid(1) show ?thesis by blast
  qed
qed

lemma snap_fine_idem:
  assumes n: "0 \<le> n" and B: "B = of_int (py_int (of_int n * (3 / 2)))"
  shows "snap_fine B (snap_fine B x) = snap_fine B x"
proof -
  from clamp_fine [OF n, of "py_int ((x + 3 / 4) / (3 / 2))"] obtain k where
    k: "0 \<le> k" and s: "snap_fine B x = of_int (py_int (of_int k * (3 / 2)))"
    unfolding snap_fine_def B by blast
  have "0 \<le> py_int (of_int n * (3 / 2))" by (rule py_int_nonneg) (use n in simp)
  then have B0: "0 \<le> B" unfolding B by (simp only: of_int_0_le_iff)
  have "snap_fine B (of_int (py_int (of_int k * (3 / 2)))) = clamp B (of_int (py_int (of_int k * (3 / 2))))"
    by (simp only: snap_fine_def fine_grid [OF k])
  also have "\<dots> = clamp B (snap_fine B x)" by (simp only: s)
  also have "\<dots> = snap_fine B x" unfolding snap_fine_def by (rule clamp_idem [OF B0])
  finally show ?thesis by (simp only: s)
qed

lemma snap_offset12_eq:
  "snap_offset12 B d y =
     clamp B (of_int (py_int ((y + 6 + 12 +
         of_int (let d0 = py_int d; d1 = (if d0 < - 12 then d0 + 12 else d0)
                 in if d1 = 0 then - 12 else d1)) / 12) * 12 -
       (12 + (let d0 = py_int d; d1 = (if d0 < - 12 then d0 + 12 else d0)
              in if d1 = 0 then - 12 else d1))))"
  by (simp only: snap_offset12_def Let_def)

lemma snap_offset24_eq:
  "snap_offset24 B d y =
     clamp B (of_int (py_int ((y + 12 + 24 +
         of_int (let d0 = py_int d in if d0 = 0 then - 24 else d0)) / 24) * 24 -
       (24 + (let d0 = py_int d in if d0 = 0 then - 24 else d0))))"
  by (simp only: snap_offset24_def Let_def)

lemma offset_step:
  fixes k dd G :: int
  assumes r: "r = (of_int (k * G - (G + dd)) :: rat)" and G: "0 < G"
    and dd: "- G \<le> dd" and pos: "0 < r"
  shows "py_int ((r + of_int G / 2 + of_int G + of_int dd) / of_int G) = k"
proof -
  from pos have "0 < k * G - (G + dd)" unfolding r by (simp only: of_int_0_less_iff)
  with dd have "0 < k * G" by linarith
  with G have k0: "0 \<le> k" by (simp add: zero_less_mult_iff)
  have g: "(of_int G :: rat) \<noteq> 0" using G by simp
  have "r + of_int G / 2 + of_int G + of_int dd = (of_int k + 1 / 2) * (of_int G :: rat)"
    unfolding r by (simp add: algebra_simps | simp add: field_simps)
  then have "(r + of_int G / 2 + of_int G + of_int dd) / of_int G
               = (of_int k + 1 / 2) * of_int G / (of_int G :: rat)"
    by (simp only:)
  also have "\<dots> = of_int k + 1 / 2" by (rule nonzero_mult_div_cancel_right [OF g])
  finally have e: "(r + of_int G / 2 + of_int G + of_int dd) / of_int G = (of_int k + 1 / 2 :: rat)" .
  show ?thesis by (simp only: e py_int_half [OF k0])
qed

lemma snap_offset12_inside:
  assumes d: "- 24 \<le> py_int d" and lo: "0 < snap_offset12 B d x" and hi: "snap_offset12 B d x < B"
  shows "snap_offset12 B d (snap_offset12 B d x) = snap_offset12 B d x"
proof -
  define dd where
    "dd = (let d0 = py_int d; d1 = (if d0 < - 12 then d0 + 12 else d0) in if d1 = 0 then - 12 else d1)"
  have sn: "snap_offset12 B d y = clamp B (of_int (py_int ((y + 6 + 12 + of_int dd) / 12) * 12 - (12 + dd)))"
    for y
    unfolding dd_def by (rule snap_offset12_eq)
  have ddb: "- 12 \<le> dd" using d by (auto simp: dd_def Let_def)
  define k where "k = py_int ((x + 6 + 12 + of_int dd) / 12)"
  define r where "r = (of_int (k * 12 - (12 + dd)) :: rat)"
  have s: "snap_offset12 B d x = clamp B r" by (simp only: sn k_def r_def)
  from lo hi have cr: "clamp B r = r" unfolding s by (rule clamp_inside)
  from lo have rpos: "0 < r" unfolding s cr .
  have "(0::int) < 12" by simp
  from offset_step [OF r_def this _ rpos] ddb
  have e: "py_int ((r + 6 + 12 + of_int dd) / 12) = k" by simp
  have "snap_offset12 B d r = clamp B (of_int (py_int ((r + 6 + 12 + of_int dd) / 12) * 12 - (12 + dd)))"
    by (rule sn)
  also have "\<dots> = clamp B r" by (simp only: e) (simp only: r_def)
  also note cr
  finally have "snap_offset12 B d r = r" .
  then show ?thesis by (simp only: s cr)
qed

lemma snap_offset24_inside:
  assumes d: "- 24 \<le> py_int d" and lo: "0 < snap_offset24 B d x" and hi: "snap_offset24 B d x < B"
  shows "snap_offset24 B d (snap_offset24 B d x) = snap_offset24 B d x"
proof -
  define dd where "dd = (let d0 = py_int d in if d0 = 0 then - 24 else d0)"
  have sn: "snap_offset24 B d y = clamp B (of_int (py_int ((y + 12 + 24 + of_int dd) / 24) * 24 - (24 + dd)))"
    for y
    unfolding dd_def by (rule snap_offset24_eq)
  have ddb: "- 24 \<le> dd" using d by (auto simp: dd_def Let_def)
  define k where "k = py_int ((x + 12 + 24 + of_int dd) / 24)"
  define r where "r = (of_int (k * 24 - (24 + dd)) :: rat)"
  have s: "snap_offset24 B d x = clamp B r" by (simp only: sn k_def r_def)
  from lo hi have cr: "clamp B r = r" unfolding s by (rule clamp_inside)
  from lo have rpos: "0 < r" unfolding s cr .
  have "(0::int) < 24" by simp
  from offset_step [OF r_def this _ rpos] ddb
  have e: "py_int ((r + 12 + 24 + of_int dd) / 24) = k" by simp
  have "snap_offset24 B d r = clamp B (of_int (py_int ((r + 12 + 24 + of_int dd) / 24) * 24 - (24 + dd)))"
    by (rule sn)
  also have "\<dots> = clamp B r" by (simp only: e) (simp only: r_def)
  also note cr
  finally have "snap_offset24 B d r = r" .
  then show ?thesis by (simp only: s cr)
qed

lemma snap_offset12_zero:
  assumes "py_int d = 0"
  shows "snap_offset12 B d x = snap_plain B x"
proof -
  have i: "(let d0 = py_int d; d1 = (if d0 < - 12 then d0 + 12 else d0) in if d1 = 0 then - 12 else d1) = - 12"
    by (simp add: assms Let_def)
  have a: "py_int ((x + 6 + 12 + of_int (- 12 :: int)) / 12) = py_int ((x + 6) / 12)"
    by (rule arg_cong [where f = py_int]) simp
  have b: "py_int ((x + 6) / 12) * 12 - (12 + - 12) = py_int ((x + 6) / 12) * 12" by simp
  show ?thesis unfolding snap_offset12_eq i a b snap_plain_def ..
qed

lemma snap_offset24_zero:
  assumes "py_int d = 0"
  shows "snap_offset24 B d x = snap_block B x"
proof -
  have i: "(let d0 = py_int d in if d0 = 0 then - 24 else d0) = - 24"
    by (simp add: assms Let_def)
  have a: "py_int ((x + 12 + 24 + of_int (- 24 :: int)) / 24) = py_int ((x + 12) / 24)"
    by (rule arg_cong [where f = py_int]) simp
  have b: "py_int ((x + 12) / 24) * 24 - (24 + - 24) = py_int ((x + 12) / 24) * 24" by simp
  show ?thesis unfolding snap_offset24_eq i a b snap_block_def ..
qed

lemma offset12_axis:
  assumes "offset_safe d B (snap_offset12 B d x)" and "0 \<le> n" and "B = of_int (n * 12)"
  shows "snap_offset12 B d (snap_offset12 B d x) = snap_offset12 B d x"
proof (cases "py_int d = 0")
  case True
  show ?thesis unfolding snap_offset12_zero [OF True] by (rule snap_plain_idem [OF assms(2,3)])
next
  case False
  with assms(1) have "- 24 \<le> py_int d" "0 < snap_offset12 B d x" "snap_offset12 B d x < B"
    by (simp_all add: offset_safe_def)
  then show ?thesis by (rule snap_offset12_inside)
qed

lemma offset24_axis:
  assumes "offset_safe d B (snap_offset24 B d x)" and "0 \<le> n" and "B = of_int (n * 24)"
  shows "snap_offset24 B d (snap_offset24 B d x) = snap_offset24 B d x"
proof (cases "py_int d = 0")
  case True
  show ?thesis unfolding snap_offset24_zero [OF True] by (rule snap_block_idem [OF assms(2,3)])
next
  case False
  with assms(1) have "- 24 \<le> py_int d" "0 < snap_offset24 B d x" "snap_offset24 B d x < B"
    by (simp_all add: offset_safe_def)
  then show ?thesis by (rule snap_offset24_inside)
qed

lemma snap_LevelEditorItem_axes:
  "snap_LevelEditorItem S in_scene is_selected it (x, y) =
     (if OverrideSnapping S \<or> autoPosChange it then (clamp 24552 x, clamp 12264 y)
      else if AltModifier S then (snap_fine 24552 x, snap_fine 12264 y)
      else if \<not> (in_scene \<and> list_ex (\<lambda>(i, is_obj, ix, iy). is_obj) (CurrentSelection S)) \<and>
              is_selected \<and> length (CurrentSelection S) > 1
        then (snap_offset12 24552 (dragoffsetx it) x, snap_offset12 12264 (dragoffsety it) y)
      else if (in_scene \<and> list_ex (\<lambda>(i, is_obj, ix, iy). is_obj) (CurrentSelection S)) \<and> is_selected
        then (snap_offset24 24552 (dragoffsetx it) x, snap_offset24 12264 (dragoffsety it) y)
      else (snap_plain 24552 x, snap_plain 12264 y))"
  by (auto simp: snap_LevelEditorItem_def snap_fine_def snap_offset12_def snap_offset24_def
        snap_plain_def Let_def)

lemma snap_raw:
  assumes "OverrideSnapping S \<or> autoPosChange it"
  shows "snap_LevelEditorItem S in_scene is_selected it (x, y) = (clamp 24552 x, clamp 12264 y)"
  using assms by (auto simp: snap_LevelEditorItem_axes)

lemma snap_alt:
  assumes "\<not> (OverrideSnapping S \<or> autoPosChange it)" "AltModifier S"
  shows "snap_LevelEditorItem S in_scene is_selected it (x, y) = (snap_fine 24552 x, snap_fine 12264 y)"
  using assms by (auto simp: snap_LevelEditorItem_axes)

lemma snap_off12:
  assumes "\<not> (OverrideSnapping S \<or> autoPosChange it)" "\<not> AltModifier S"
    "\<not> (in_scene \<and> list_ex (\<lambda>(i, is_obj, ix, iy). is_obj) (CurrentSelection S)) \<and>
       is_selected \<and> length (CurrentSelection S) > 1"
  shows "snap_LevelEditorItem S in_scene is_selected it (x, y)
           = (snap_offset12 24552 (dragoffsetx it) x, snap_offset12 12264 (dragoffsety it) y)"
  using assms by (auto simp: snap_LevelEditorItem_axes)

lemma snap_off24:
  assumes "\<not> (OverrideSnapping S \<or> autoPosChange it)" "\<not> AltModifier S"
    "\<not> (\<not> (in_scene \<and> list_ex (\<lambda>(i, is_obj, ix, iy). is_obj) (CurrentSelection S)) \<and>
          is_selected \<and> length (CurrentSelection S) > 1)"
    "(in_scene \<and> list_ex (\<lambda>(i, is_obj, ix, iy). is_obj) (CurrentSelection S)) \<and> is_selected"
  shows "snap_LevelEditorItem S in_scene is_selected it (x, y)
           = (snap_offset24 24552 (dragoffsetx it) x, snap_offset24 12264 (dragoffsety it) y)"
  using assms by (auto simp: snap_LevelEditorItem_axes)

lemma snap_grid:
  assumes "\<not> (OverrideSnapping S \<or> autoPosChange it)" "\<not> AltModifier S"
    "\<not> (\<not> (in_scene \<and> list_ex (\<lambda>(i, is_obj, ix, iy). is_obj) (CurrentSelection S)) \<and>
          is_selected \<and> length (CurrentSelection S) > 1)"
    "\<not> ((in_scene \<and> list_ex (\<lambda>(i, is_obj, ix, iy). is_obj) (CurrentSelection S)) \<and> is_selected)"
  shows "snap_LevelEditorItem S in_scene is_selected it (x, y) = (snap_plain 24552 x, snap_plain 12264 y)"
  using assms by (auto simp: snap_LevelEditorItem_axes)

lemma clamp_x: "clamp 24552 (clamp 24552 x) = clamp 24552 x"
  by (simp add: clamp_def)

lemma clamp_y: "clamp 12264 (clamp 12264 x) = clamp 12264 x"
  by (simp add: clamp_def)

lemma plain_x: "snap_plain 24552 (snap_plain 24552 x) = snap_plain 24552 x"
  by (rule snap_plain_idem [where n = 2046]) simp_all

lemma plain_y: "snap_plain 12264 (snap_plain 12264 x) = snap_plain 12264 x"
  by (rule snap_plain_idem [where n = 1022]) simp_all

lemma block_x: "snap_block 24576 (snap_block 24576 x) = snap_block 24576 x"
  by (rule snap_block_idem [where n = 1024]) simp_all

lemma block_y: "snap_block 12288 (snap_block 12288 x) = snap_block 12288 x"
  by (rule snap_block_idem [where n = 512]) simp_all

lemma fine_x: "snap_fine 24552 (snap_fine 24552 x) = snap_fine 24552 x"
  by (rule snap_fine_idem [where n = 16368]) (simp_all add: py_int_def)

lemma fine_y: "snap_fine 12264 (snap_fine 12264 x) = snap_fine 12264 x"
  by (rule snap_fine_idem [where n = 8176]) (simp_all add: py_int_def)

lemma snap_ObjectItem_idem: "snap_ObjectItem (snap_ObjectItem v) = snap_ObjectItem v"
proof -
  obtain x y where v: "v = (x, y)" by (cases v)
  have e: "snap_ObjectItem (a, b) = (snap_block 24576 a, snap_block 12288 b)" for a b
    by (simp add: snap_ObjectItem_def snap_block_def)
  show ?thesis unfolding v by (simp only: e block_x block_y)
qed

lemma snap_LevelEditorItem_idem:
  assumes c: "\<not> uses_offsets S in_scene is_selected it \<or>
           offset_safe (dragoffsetx it) 24552 (fst p) \<and> offset_safe (dragoffsety it) 12264 (snd p)"
    and p: "p = snap_LevelEditorItem S in_scene is_selected it v"
  shows "snap_LevelEditorItem S in_scene is_selected it p = p"
proof -
  obtain x y where v: "v = (x, y)" by (cases v)
  let ?obj = "in_scene \<and> list_ex (\<lambda>(i, is_obj, ix, iy). is_obj) (CurrentSelection S)"
  consider (raw) "OverrideSnapping S \<or> autoPosChange it"
    | (alt) "\<not> (OverrideSnapping S \<or> autoPosChange it)" "AltModifier S"
    | (off12) "\<not> (OverrideSnapping S \<or> autoPosChange it)" "\<not> AltModifier S"
        "\<not> ?obj \<and> is_selected \<and> length (CurrentSelection S) > 1"
    | (off24) "\<not> (OverrideSnapping S \<or> autoPosChange it)" "\<not> AltModifier S"
        "\<not> (\<not> ?obj \<and> is_selected \<and> length (CurrentSelection S) > 1)" "?obj \<and> is_selected"
    | (plain) "\<not> (OverrideSnapping S \<or> autoPosChange it)" "\<not> AltModifier S"
        "\<not> (\<not> ?obj \<and> is_selected \<and> length (CurrentSelection S) > 1)" "\<not> (?obj \<and> is_selected)"
    by blast
  then show ?thesis
  proof cases
    case raw
    note b = snap_raw [OF raw]
    show ?thesis unfolding p v by (simp only: b clamp_x clamp_y)
  next
    case alt
    note b = snap_alt [OF alt]
    show ?thesis unfolding p v by (simp only: b fine_x fine_y)
  next
    case plain
    note b = snap_grid [OF plain]
    show ?thesis unfolding p v by (simp only: b plain_x plain_y)
  next
    case off12
    note b = snap_off12 [OF off12]
    from off12 have u: "uses_offsets S in_scene is_selected it" by (auto simp: uses_offsets_def)
    have q: "p = (snap_offset12 24552 (dragoffsetx it) x, snap_offset12 12264 (dragoffsety it) y)"
      unfolding p v by (rule b)
    from c u have "offset_safe (dragoffsetx it) 24552 (fst p)" "offset_safe (dragoffsety it) 12264 (snd p)"
      by blast+
    then have cx: "offset_safe (dragoffsetx it) 24552 (snap_offset12 24552 (dragoffsetx it) x)"
      and cy: "offset_safe (dragoffsety it) 12264 (snap_offset12 12264 (dragoffsety it) y)"
      unfolding q by simp_all
    have ix: "snap_offset12 24552 (dragoffsetx it) (snap_offset12 24552 (dragoffsetx it) x)
                = snap_offset12 24552 (dragoffsetx it) x"
      by (rule offset12_axis [where n = 2046, OF cx]) simp_all
    have iy: "snap_offset12 12264 (dragoffsety it) (snap_offset12 12264 (dragoffsety it) y)
                = snap_offset12 12264 (dragoffsety it) y"
      by (rule offset12_axis [where n = 1022, OF cy]) simp_all
    show ?thesis unfolding q by (simp only: b ix iy)
  next
    case off24
    note b = snap_off24 [OF off24]
    from off24 have u: "uses_offsets S in_scene is_selected it" by (auto simp: uses_offsets_def)
    have q: "p = (snap_offset24 24552 (dragoffsetx it) x, snap_offset24 12264 (dragoffsety it) y)"
      unfolding p v by (rule b)
    from c u have "offset_safe (dragoffsetx it) 24552 (fst p)" "offset_safe (dragoffsety it) 12264 (snd p)"
      by blast+
    then have cx: "offset_safe (dragoffsetx it) 24552 (snap_offset24 24552 (dragoffsetx it) x)"
      and cy: "offset_safe (dragoffsety it) 12264 (snap_offset24 12264 (dragoffsety it) y)"
      unfolding q by simp_all
    have ix: "snap_offset24 24552 (dragoffsetx it) (snap_offset24 24552 (dragoffsetx it) x)
                = snap_offset24 24552 (dragoffsetx it) x"
      by (rule offset24_axis [where n = 1023, OF cx]) simp_all
    have iy: "snap_offset24 12264 (dragoffsety it) (snap_offset24 12264 (dragoffsety it) y)
                = snap_offset24 12264 (dragoffsety it) y"
      by (rule offset24_axis [where n = 511, OF cy]) simp_all
    show ?thesis unfolding q by (simp only: b ix iy)
  qed
qed

lemma snap_LevelEditorItem_cong:
  assumes "dragoffsetx it' = dragoffsetx it" "dragoffsety it' = dragoffsety it"
    "autoPosChange it' = autoPosChange it"
  shows "snap_LevelEditorItem S in_scene is_selected it' p = snap_LevelEditorItem S in_scene is_selected it p"
  by (cases p) (auto simp: snap_LevelEditorItem_axes assms)

lemma LevelEditorItem_itemChange_pos:
  "fst (LevelEditorItem_itemChange S me in_scene is_selected is_line it v)
     = snap_LevelEditorItem S in_scene is_selected it v"
  by (simp add: LevelEditorItem_itemChange_def Let_def)

lemma LevelEditorItem_itemChange_fields:
  "dragoffsetx (fst (snd (LevelEditorItem_itemChange S me in_scene is_selected is_line it v)))
     = dragoffsetx it"
  "dragoffsety (fst (snd (LevelEditorItem_itemChange S me in_scene is_selected is_line it v)))
     = dragoffsety it"
  "autoPosChange (fst (snd (LevelEditorItem_itemChange S me in_scene is_selected is_line it v)))
     = autoPosChange it"
  by (simp_all add: LevelEditorItem_itemChange_def Let_def)

lemma ObjectItem_itemChange_pos:
  "fst (ObjectItem_itemChange S me in_scene obj v) = (if in_scene then snap_ObjectItem v else v)"
  by (simp add: ObjectItem_itemChange_def Let_def)

text \<open>
  C9 (snapping twice). As the claim states it, the position \<open>itemChange\<close> returns is a
  fixed point of \<open>itemChange\<close>, whatever the modifier keys, the selection and the drag
  offsets. With two items selected that are not objects, an item at cell 4 has the drag
  offset -6; dragged to x = -3 it is put at 0 by the clamp, and from 0 it is put at 6.
  Positions are computed with exact rationals in place of Qt's floating point numbers;
  the numbers of this example are whole or far from a rounding boundary.
\<close>

theorem snap_idempotence_counterexample:
  "fst (LevelEditorItem_itemChange S_pair 1 True True False (item_at 4 0) (- 3, 0)) = (0, 0) \<and>
   fst (LevelEditorItem_itemChange S_pair 1 True True False
          (fst (snd (LevelEditorItem_itemChange S_pair 1 True True False (item_at 4 0) (- 3, 0))))
          (0, 0)) = (6, 0)"
  by code_simp

text \<open>
  C9 as amended. The position \<open>ObjectItem.itemChange\<close> returns is a fixed point of it. The
  position \<open>LevelEditorItem.itemChange\<close> returns is a fixed point of it in the branches
  that do not read the drag offsets (snapping overridden, Alt held, the plain 8-unit
  grid). In the two branches that read them it is a fixed point when, on each axis,
  \<open>int\<close> of the drag offset is 0, or is at least -24 and the position returned lies
  strictly between 0 and the bound, where the clamp has not moved it. The second
  application is to the item as the first has left it.
\<close>

theorem snap_idempotence:
  "fst (ObjectItem_itemChange S me in_scene (fst (snd (ObjectItem_itemChange S me in_scene obj v)))
          (fst (ObjectItem_itemChange S me in_scene obj v)))
     = fst (ObjectItem_itemChange S me in_scene obj v) \<and>
   (\<not> uses_offsets S in_scene is_selected it \<or>
    offset_safe (dragoffsetx it) 24552
      (fst (fst (LevelEditorItem_itemChange S me in_scene is_selected is_line it w))) \<and>
    offset_safe (dragoffsety it) 12264
      (snd (fst (LevelEditorItem_itemChange S me in_scene is_selected is_line it w))) \<longrightarrow>
    fst (LevelEditorItem_itemChange S me in_scene is_selected is_line
           (fst (snd (LevelEditorItem_itemChange S me in_scene is_selected is_line it w)))
           (fst (LevelEditorItem_itemChange S me in_scene is_selected is_line it w)))
      = fst (LevelEditorItem_itemChange S me in_scene is_selected is_line it w))"
proof -
  have 1: "fst (ObjectItem_itemChange S me in_scene (fst (snd (ObjectItem_itemChange S me in_scene obj v)))
          (fst (ObjectItem_itemChange S me in_scene obj v)))
     = fst (ObjectItem_itemChange S me in_scene obj v)"
    by (simp add: ObjectItem_itemChange_pos snap_ObjectItem_idem)
  let ?it' = "fst (snd (LevelEditorItem_itemChange S me in_scene is_selected is_line it w))"
  let ?p = "snap_LevelEditorItem S in_scene is_selected it w"
  have same: "snap_LevelEditorItem S in_scene is_selected ?it' q
                = snap_LevelEditorItem S in_scene is_selected it q" for q
    by (rule snap_LevelEditorItem_cong) (rule LevelEditorItem_itemChange_fields)+
  have 2: "snap_LevelEditorItem S in_scene is_selected ?it' ?p = ?p"
    if h: "\<not> uses_offsets S in_scene is_selected it \<or>
           offset_safe (dragoffsetx it) 24552 (fst ?p) \<and> offset_safe (dragoffsety it) 12264 (snd ?p)"
    unfolding same by (rule snap_LevelEditorItem_idem [OF h refl])
  show ?thesis unfolding LevelEditorItem_itemChange_pos using 1 2 by blast
qed

theorem snap_idempotence_witness:
  "uses_offsets S_pair True True (item_at 4 0) \<and>
   fst (LevelEditorItem_itemChange S_pair 1 True True False (item_at 4 0) (48, 0)) = (54, 0) \<and>
   offset_safe (dragoffsetx (item_at 4 0)) 24552 54 \<and>
   offset_safe (dragoffsety (item_at 4 0)) 12264 0 \<and>
   fst (LevelEditorItem_itemChange S_pair 1 True True False
          (fst (snd (LevelEditorItem_itemChange S_pair 1 True True False (item_at 4 0) (48, 0))))
          (fst (LevelEditorItem_itemChange S_pair 1 True True False (item_at 4 0) (48, 0))))
     = fst (LevelEditorItem_itemChange S_pair 1 True True False (item_at 4 0) (48, 0))"
proof -
  have a: "uses_offsets S_pair True True (item_at 4 0)" by code_simp
  have b: "fst (LevelEditorItem_itemChange S_pair 1 True True False (item_at 4 0) (48, 0)) = (54, 0)"
    by code_simp
  have c: "offset_safe (dragoffsetx (item_at 4 0)) 24552 54" by code_simp
  have d: "offset_safe (dragoffsety (item_at 4 0)) 12264 0" by code_simp
  from c d have
    "offset_safe (dragoffsetx (item_at 4 0)) 24552
       (fst (fst (LevelEditorItem_itemChange S_pair 1 True True False (item_at 4 0) (48, 0)))) \<and>
     offset_safe (dragoffsety (item_at 4 0)) 12264
       (snd (fst (LevelEditorItem_itemChange S_pair 1 True True False (item_at 4 0) (48, 0))))"
    unfolding b by simp
  with snap_idempotence [of S_pair 1 True "obj_at 0 0 1 1" "(0, 0)" True "item_at 4 0" False "(48, 0)"]
  have "fst (LevelEditorItem_itemChange S_pair 1 True True False
          (fst (snd (LevelEditorItem_itemChange S_pair 1 True True False (item_at 4 0) (48, 0))))
          (fst (LevelEditorItem_itemChange S_pair 1 True True False (item_at 4 0) (48, 0))))
     = fst (LevelEditorItem_itemChange S_pair 1 True True False (item_at 4 0) (48, 0))"
    by blast
  with a b c d show ?thesis by blast
qed

end
